theory Spec2Isabelle
  imports Complex_Main "HOL-Library.Multiset" "HOL-Library.Sublist"
begin

text \<open>
  The detection service of the portal (\<open>src/services/yolov5Service.ts\<close>): the
  letterbox preprocessing of a frame, the decoding of the raw output of the model into
  detections, the suppression of overlapping detections, and the \<open>detect\<close> method
  that chains them around the inference engine. The methods are embedded as functions
  over the values they read and write; the statements that follow the definitions are
  about these functions.
\<close>

section \<open>JavaScript numbers\<close>

text \<open>
  A JavaScript number is modelled as a real, or one of the three non-finite values of
  IEEE 754. The operations of this section are exact on finite numbers; the rounding
  and the overflow of the language are added on top of them in the section on binary64
  rounding. The two zeros are not distinguished: a zero divisor counts as +0.
  What is modelled here is everything the services rely on when a value is not finite:
  \<open>0 / 0\<close> and \<open>0 * Infinity\<close> are \<open>NaN\<close>, \<open>x / 0\<close> is infinite, every
  comparison with \<open>NaN\<close> is false, and \<open>Math.min\<close>, \<open>Math.max\<close> and
  \<open>Math.floor\<close> propagate \<open>NaN\<close>. Reading \<open>undefined\<close> as a number gives
  \<open>NaN\<close> as well.
\<close>

datatype jsnum = Num real | PInf | NInf | NaN

fun js_neg :: "jsnum \<Rightarrow> jsnum" where
  "js_neg (Num a) = Num (- a)"
| "js_neg PInf = NInf"
| "js_neg NInf = PInf"
| "js_neg NaN = NaN"

fun js_add :: "jsnum \<Rightarrow> jsnum \<Rightarrow> jsnum" where
  "js_add (Num a) (Num b) = Num (a + b)"
| "js_add NaN _ = NaN"
| "js_add _ NaN = NaN"
| "js_add PInf NInf = NaN"
| "js_add NInf PInf = NaN"
| "js_add PInf _ = PInf"
| "js_add _ PInf = PInf"
| "js_add NInf _ = NInf"
| "js_add _ NInf = NInf"

definition js_sub :: "jsnum \<Rightarrow> jsnum \<Rightarrow> jsnum" where
  "js_sub a b = js_add a (js_neg b)"

fun js_mul :: "jsnum \<Rightarrow> jsnum \<Rightarrow> jsnum" where
  "js_mul (Num a) (Num b) = Num (a * b)"
| "js_mul NaN _ = NaN"
| "js_mul _ NaN = NaN"
| "js_mul PInf (Num b) = (if b = 0 then NaN else if 0 < b then PInf else NInf)"
| "js_mul NInf (Num b) = (if b = 0 then NaN else if 0 < b then NInf else PInf)"
| "js_mul (Num a) PInf = (if a = 0 then NaN else if 0 < a then PInf else NInf)"
| "js_mul (Num a) NInf = (if a = 0 then NaN else if 0 < a then NInf else PInf)"
| "js_mul PInf PInf = PInf"
| "js_mul PInf NInf = NInf"
| "js_mul NInf PInf = NInf"
| "js_mul NInf NInf = PInf"

fun js_div :: "jsnum \<Rightarrow> jsnum \<Rightarrow> jsnum" where
  "js_div (Num a) (Num b) =
     (if b \<noteq> 0 then Num (a / b)
      else if a = 0 then NaN else if 0 < a then PInf else NInf)"
| "js_div NaN _ = NaN"
| "js_div _ NaN = NaN"
| "js_div (Num a) PInf = Num 0"
| "js_div (Num a) NInf = Num 0"
| "js_div PInf (Num b) = (if 0 \<le> b then PInf else NInf)"
| "js_div NInf (Num b) = (if 0 \<le> b then NInf else PInf)"
| "js_div PInf PInf = NaN"
| "js_div PInf NInf = NaN"
| "js_div NInf PInf = NaN"
| "js_div NInf NInf = NaN"

fun js_lt :: "jsnum \<Rightarrow> jsnum \<Rightarrow> bool" where
  "js_lt (Num a) (Num b) = (a < b)"
| "js_lt NaN _ = False"
| "js_lt _ NaN = False"
| "js_lt NInf NInf = False"
| "js_lt NInf _ = True"
| "js_lt PInf _ = False"
| "js_lt (Num a) PInf = True"
| "js_lt (Num a) NInf = False"

definition js_gt :: "jsnum \<Rightarrow> jsnum \<Rightarrow> bool" where
  "js_gt a b = js_lt b a"

definition js_ge :: "jsnum \<Rightarrow> jsnum \<Rightarrow> bool" where
  "js_ge a b = (a \<noteq> NaN \<and> b \<noteq> NaN \<and> \<not> js_lt a b)"

definition Math_min :: "jsnum \<Rightarrow> jsnum \<Rightarrow> jsnum" where
  "Math_min a b = (if a = NaN \<or> b = NaN then NaN else if js_lt b a then b else a)"

definition Math_max :: "jsnum \<Rightarrow> jsnum \<Rightarrow> jsnum" where
  "Math_max a b = (if a = NaN \<or> b = NaN then NaN else if js_lt a b then b else a)"

fun Math_floor :: "jsnum \<Rightarrow> jsnum" where
  "Math_floor (Num a) = Num (of_int \<lfloor>a\<rfloor>)"
| "Math_floor PInf = PInf"
| "Math_floor NInf = NInf"
| "Math_floor NaN = NaN"

section \<open>The detection service\<close>

type_synonym Box = "jsnum \<times> jsnum \<times> jsnum \<times> jsnum"

subsection \<open>calculateIoU\<close>

definition calculateIoU :: "Box \<Rightarrow> Box \<Rightarrow> jsnum" where
  "calculateIoU box1 box2 =
     (case box1 of (x1, y1, w1, h1) \<Rightarrow>
      case box2 of (x2, y2, w2, h2) \<Rightarrow>
        let box1Right = js_add x1 w1;
            box1Bottom = js_add y1 h1;
            box2Right = js_add x2 w2;
            box2Bottom = js_add y2 h2;
            intersectLeft = Math_max x1 x2;
            intersectTop = Math_max y1 y2;
            intersectRight = Math_min box1Right box2Right;
            intersectBottom = Math_min box1Bottom box2Bottom
        in if js_lt intersectRight intersectLeft \<or> js_lt intersectBottom intersectTop
           then Num 0
           else
             let intersectArea =
                   js_mul (js_sub intersectRight intersectLeft)
                          (js_sub intersectBottom intersectTop);
                 box1Area = js_mul w1 h1;
                 box2Area = js_mul w2 h2;
                 unionArea = js_sub (js_add box1Area box2Area) intersectArea
             in js_div intersectArea unionArea)"

subsection \<open>Model configuration and detection results\<close>

record ModelConfig =
  modelUrl :: string
  inputShape :: "nat list"
  scoreThreshold :: jsnum
  iouThreshold :: jsnum
  classNames :: "string list"

definition modelConfig :: ModelConfig where
  "modelConfig =
     \<lparr> modelUrl = ''/models/yolov5s.onnx'',
       inputShape = [1, 3, 640, 640],
       scoreThreshold = Num (45 / 100),
       iouThreshold = Num (45 / 100),
       classNames =
         [''person'', ''bicycle'', ''car'', ''motorcycle'', ''airplane'', ''bus'', ''train'',
          ''truck'', ''boat'', ''traffic light'', ''fire hydrant'', ''stop sign'',
          ''parking meter'', ''bench'', ''bird'', ''cat'', ''dog'', ''horse'', ''sheep'',
          ''cow'', ''elephant'', ''bear'', ''zebra'', ''giraffe'', ''backpack'', ''umbrella'',
          ''handbag'', ''tie'', ''suitcase'', ''frisbee'', ''skis'', ''snowboard'',
          ''sports ball'', ''kite'', ''baseball bat'', ''baseball glove'', ''skateboard'',
          ''surfboard'', ''tennis racket'', ''bottle'', ''wine glass'', ''cup'', ''fork'',
          ''knife'', ''spoon'', ''bowl'', ''banana'', ''apple'', ''sandwich'', ''orange'',
          ''broccoli'', ''carrot'', ''hot dog'', ''pizza'', ''donut'', ''cake'', ''chair'',
          ''couch'', ''potted plant'', ''bed'', ''dining table'', ''toilet'', ''tv'',
          ''laptop'', ''mouse'', ''remote'', ''keyboard'', ''cell phone'', ''microwave'',
          ''oven'', ''toaster'', ''sink'', ''refrigerator'', ''book'', ''clock'', ''vase'',
          ''scissors'', ''teddy bear'', ''hair drier'', ''toothbrush''] \<rparr>"

text \<open>
  \<open>label\<close> and \<open>color\<close> are read from arrays by index; an index past the end gives
  \<open>undefined\<close>, which is \<open>None\<close> here.
\<close>

record DetectionResult =
  box :: Box
  label :: "string option"
  confidence :: jsnum
  color :: "string option"

definition js_index :: "'a list \<Rightarrow> nat \<Rightarrow> 'a option" where
  "js_index xs k = (if k < length xs then Some (xs ! k) else None)"

text \<open>
  Reading a typed array as a number: an index past the end gives \<open>undefined\<close>, and
  every use of such a value in the services is a comparison or an arithmetic operation,
  where it counts as \<open>NaN\<close>.
\<close>

definition typed_at :: "jsnum list \<Rightarrow> nat \<Rightarrow> jsnum" where
  "typed_at xs k = (if k < length xs then xs ! k else NaN)"

subsection \<open>nonMaxSuppression\<close>

text \<open>
  \<open>Array.prototype.sort\<close> with the comparator \<open>(a, b) => b.confidence - a.confidence\<close>.
  The sort of the language is stable, and a comparator result that is \<open>NaN\<close> counts as
  0; it is modelled as a stable insertion sort, which is the result of every conforming
  sort whenever the comparator is consistent. An element moves behind another one only
  when the comparator is positive.
\<close>

definition compareFn :: "DetectionResult \<Rightarrow> DetectionResult \<Rightarrow> jsnum" where
  "compareFn a b = js_sub (confidence b) (confidence a)"

fun insert_sorted :: "DetectionResult \<Rightarrow> DetectionResult list \<Rightarrow> DetectionResult list" where
  "insert_sorted x [] = [x]"
| "insert_sorted x (y # ys) =
     (if js_gt (compareFn x y) (Num 0) then y # insert_sorted x ys else x # y # ys)"

definition array_sort :: "DetectionResult list \<Rightarrow> DetectionResult list" where
  "array_sort xs = foldr insert_sorted xs []"

text \<open>
  The two tests of the inner loop together: the candidate at \<open>i\<close> discards the one at
  \<open>j\<close> when their labels are equal and their IoU is above the threshold.
\<close>

definition discards :: "DetectionResult list \<Rightarrow> jsnum \<Rightarrow> nat \<Rightarrow> nat \<Rightarrow> bool" where
  "discards boxes iouThr i j =
     (label (boxes ! i) = label (boxes ! j) \<and>
      js_gt (calculateIoU (box (boxes ! i)) (box (boxes ! j))) iouThr)"

text \<open>The body of the inner loop, at index \<open>j\<close>, for the current candidate \<open>i\<close>.\<close>

definition nms_inner ::
  "DetectionResult list \<Rightarrow> jsnum \<Rightarrow> nat \<Rightarrow> nat \<Rightarrow> bool list \<Rightarrow> bool list" where
  "nms_inner boxes iouThr i j isSelected =
     (if isSelected ! j then isSelected
      else if label (boxes ! i) = label (boxes ! j)
      then (let iou = calculateIoU (box (boxes ! i)) (box (boxes ! j))
            in if js_gt iou iouThr then isSelected[j := True] else isSelected)
      else isSelected)"

text \<open>The body of the outer loop, at index \<open>i\<close>.\<close>

definition nms_outer ::
  "DetectionResult list \<Rightarrow> jsnum \<Rightarrow> nat \<Rightarrow>
   DetectionResult list \<times> bool list \<Rightarrow> DetectionResult list \<times> bool list" where
  "nms_outer boxes iouThr i st =
     (case st of (selectedBoxes, isSelected) \<Rightarrow>
        if isSelected ! i then (selectedBoxes, isSelected)
        else (selectedBoxes @ [boxes ! i],
              fold (nms_inner boxes iouThr i) [i + 1 ..< length boxes]
                   (isSelected[i := True])))"

text \<open>
  The method sorts the caller's array in place, so it returns a pair: the selected
  boxes, and the caller's array as the call leaves it.
\<close>

definition nonMaxSuppression ::
  "DetectionResult list \<Rightarrow> jsnum \<Rightarrow> DetectionResult list \<times> DetectionResult list" where
  "nonMaxSuppression boxes iouThr =
     (let sorted = array_sort boxes;
          isSelected = replicate (length sorted) False;
          final = fold (nms_outer sorted iouThr) [0 ..< length sorted] ([], isSelected)
      in (fst final, sorted))"

subsection \<open>postprocess\<close>

record Tensor =
  tensor_data :: "jsnum list"
  tensor_dims :: "nat list"

datatype error = LoadError | TypeError | RunError

text \<open>An \<open>async\<close> method returns a promise: rejected with an error, or resolved.\<close>

type_synonym 'a promise = "error + 'a"

text \<open>
  The scan of the class scores of the row at \<open>baseOffset\<close>: the body of the loop at
  index \<open>j\<close>, and the loop.
\<close>

definition maxClass_step :: "jsnum list \<Rightarrow> nat \<Rightarrow> nat \<Rightarrow> jsnum \<times> nat \<Rightarrow> jsnum \<times> nat" where
  "maxClass_step predictions baseOffset j st =
     (case st of (maxClassScore, maxClassIndex) \<Rightarrow>
        let score = typed_at predictions (baseOffset + j)
        in if js_gt score maxClassScore then (score, j - 5)
           else (maxClassScore, maxClassIndex))"

definition maxClass :: "jsnum list \<Rightarrow> nat \<Rightarrow> nat \<Rightarrow> jsnum \<times> nat" where
  "maxClass predictions baseOffset dimensions =
     fold (maxClass_step predictions baseOffset) [5 ..< dimensions] (Num 0, 0)"

text \<open>The body of the loop over the rows, at row \<open>i\<close>.\<close>

definition postprocess_row ::
  "string list \<Rightarrow> jsnum list \<Rightarrow> nat \<Rightarrow> jsnum \<Rightarrow> jsnum \<Rightarrow> jsnum \<Rightarrow> nat \<Rightarrow>
   DetectionResult list \<Rightarrow> DetectionResult list" where
  "postprocess_row colors predictions dimensions imgWidth imgHeight confidenceThreshold i results =
     (let modelHeight = Num (real (inputShape modelConfig ! 2));
          modelWidth = Num (real (inputShape modelConfig ! 3));
          baseOffset = i * dimensions;
          conf = typed_at predictions (baseOffset + 4)
      in if js_gt conf confidenceThreshold
         then (case maxClass predictions baseOffset dimensions of
                 (maxClassScore, maxClassIndex) \<Rightarrow>
                   let combinedScore = js_mul conf maxClassScore
                   in if js_gt combinedScore confidenceThreshold
                      then (let x = typed_at predictions baseOffset;
                                y = typed_at predictions (baseOffset + 1);
                                width = typed_at predictions (baseOffset + 2);
                                height = typed_at predictions (baseOffset + 3);
                                imageScaleX = js_div imgWidth modelWidth;
                                imageScaleY = js_div imgHeight modelHeight;
                                x = js_mul (js_mul x modelWidth) imageScaleX;
                                y = js_mul (js_mul y modelHeight) imageScaleY;
                                width = js_mul (js_mul width modelWidth) imageScaleX;
                                height = js_mul (js_mul height modelHeight) imageScaleY;
                                left = js_sub x (js_div width (Num 2));
                                top = js_sub y (js_div height (Num 2))
                            in results @
                               [\<lparr> box = (left, top, width, height),
                                   label = js_index (classNames modelConfig) maxClassIndex,
                                   confidence = combinedScore,
                                   color = js_index colors maxClassIndex \<rparr>])
                      else results)
         else results)"

text \<open>
  The \<open>results\<close> array when the loop over the rows ends, before suppression. When
  \<open>dims\<close> has no entry 1 the loop bound is \<open>undefined\<close> and the loop does not run;
  when it has no entry 2 every offset is \<open>NaN\<close>, every read is \<open>undefined\<close> and
  every row is skipped.
\<close>

definition postprocess_results ::
  "string list \<Rightarrow> Tensor \<Rightarrow> jsnum \<Rightarrow> jsnum \<Rightarrow> jsnum \<Rightarrow> DetectionResult list" where
  "postprocess_results colors t imgWidth imgHeight confidenceThreshold =
     (let predictions = tensor_data t
      in case (js_index (tensor_dims t) 1, js_index (tensor_dims t) 2) of
           (Some numDetections, Some dimensions) \<Rightarrow>
             fold (postprocess_row colors predictions dimensions imgWidth imgHeight
                     confidenceThreshold)
                  [0 ..< numDetections] []
         | _ \<Rightarrow> [])"

text \<open>
  \<open>confidenceThreshold\<close> is an optional parameter: \<open>None\<close> is an argument left out
  (or \<open>undefined\<close>), which takes the default of the configuration.
\<close>

definition postprocess ::
  "string list \<Rightarrow> Tensor list \<Rightarrow> jsnum \<Rightarrow> jsnum \<Rightarrow> jsnum option \<Rightarrow>
   DetectionResult list promise" where
  "postprocess colors output imgWidth imgHeight confidenceThreshold =
     (case output of
        [] \<Rightarrow> Inr []
      | t # _ \<Rightarrow>
          let thr = (case confidenceThreshold of
                       None \<Rightarrow> scoreThreshold modelConfig
                     | Some c \<Rightarrow> c);
              results = postprocess_results colors t imgWidth imgHeight thr
          in Inr (fst (nonMaxSuppression results (iouThreshold modelConfig))))"

subsection \<open>preprocess\<close>

text \<open>
  A frame: the bytes of its pixels (four per pixel, each 0 to 255), its width and its
  height.
\<close>

record ImageData =
  image_data :: "nat list"
  image_width :: nat
  image_height :: nat

text \<open>
  Reading the pixel bytes at a computed position: a position that is not an index of
  the array (not a whole number, negative, past the end, or not finite) gives
  \<open>undefined\<close>, which the division that follows turns into \<open>NaN\<close>.
\<close>

definition byte_at :: "nat list \<Rightarrow> jsnum \<Rightarrow> jsnum" where
  "byte_at xs p =
     (case p of
        Num r \<Rightarrow>
          if 0 \<le> r \<and> r = of_int \<lfloor>r\<rfloor> \<and> nat \<lfloor>r\<rfloor> < length xs
          then Num (real (xs ! nat \<lfloor>r\<rfloor>)) else NaN
      | _ \<Rightarrow> NaN)"

text \<open>
  The body of the two loops, at the target pixel \<open>(x, y)\<close>. A write past the end of
  the buffer is ignored, by the typed array as by the list update.
\<close>

definition preprocess_pixel ::
  "ImageData \<Rightarrow> jsnum \<Rightarrow> jsnum \<Rightarrow> jsnum \<Rightarrow> jsnum \<Rightarrow> jsnum \<Rightarrow> nat \<Rightarrow> nat \<Rightarrow>
   nat \<Rightarrow> nat \<Rightarrow> jsnum list \<Rightarrow> jsnum list" where
  "preprocess_pixel imageData resizeRatio resizedWidth resizedHeight offsetX offsetY
     height width y x inputData =
     (let imgData = image_data imageData;
          imgWidth = Num (real (image_width imageData));
          isInside =
            (js_ge (Num (real x)) offsetX \<and>
             js_lt (Num (real x)) (js_add offsetX resizedWidth) \<and>
             js_ge (Num (real y)) offsetY \<and>
             js_lt (Num (real y)) (js_add offsetY resizedHeight))
      in if isInside
         then (let origX = Math_floor (js_div (js_sub (Num (real x)) offsetX) resizeRatio);
                   origY = Math_floor (js_div (js_sub (Num (real y)) offsetY) resizeRatio);
                   origPos = js_mul (js_add (js_mul origY imgWidth) origX) (Num 4);
                   r = js_div (byte_at imgData origPos) (Num 255);
                   g = js_div (byte_at imgData (js_add origPos (Num 1))) (Num 255);
                   b = js_div (byte_at imgData (js_add origPos (Num 2))) (Num 255)
               in inputData
                    [0 * height * width + y * width + x := r,
                     1 * height * width + y * width + x := g,
                     2 * height * width + y * width + x := b])
         else inputData
                [0 * height * width + y * width + x := Num 0,
                 1 * height * width + y * width + x := Num 0,
                 2 * height * width + y * width + x := Num 0])"

definition preprocess :: "ImageData \<Rightarrow> jsnum list promise" where
  "preprocess imageData =
     (let batch = inputShape modelConfig ! 0;
          channels = inputShape modelConfig ! 1;
          height = inputShape modelConfig ! 2;
          width = inputShape modelConfig ! 3;
          inputData = replicate (batch * channels * height * width) (Num 0);
          imgWidth = Num (real (image_width imageData));
          imgHeight = Num (real (image_height imageData));
          resizeRatio = Math_min (js_div (Num (real width)) imgWidth)
                                 (js_div (Num (real height)) imgHeight);
          resizedWidth = Math_floor (js_mul imgWidth resizeRatio);
          resizedHeight = Math_floor (js_mul imgHeight resizeRatio);
          offsetX = js_div (js_sub (Num (real width)) resizedWidth) (Num 2);
          offsetY = js_div (js_sub (Num (real height)) resizedHeight) (Num 2)
      in Inr (fold (\<lambda>y. fold (preprocess_pixel imageData resizeRatio resizedWidth
                                   resizedHeight offsetX offsetY height width y)
                              [0 ..< width])
                   [0 ..< height] inputData))"

subsection \<open>loadModel and detect\<close>

text \<open>
  The service object. The colors are drawn at random when the service is constructed
  and never change afterwards, so they are a field of the state.
\<close>

record 's YOLOv5Service =
  session :: "'s option"
  modelLoading :: bool
  modelLoaded :: bool
  colors :: "string list"

text \<open>
  The inference engine is outside the repository: \<open>createSession\<close> is the outcome of
  fetching the model and creating a session from it (\<open>None\<close> when either throws),
  \<open>run\<close> the values of the output that the session computes from the input buffer
  (\<open>None\<close> when the engine throws).
\<close>

record 's Engine =
  createSession :: "'s option"
  run :: "'s \<Rightarrow> jsnum list \<Rightarrow> Tensor list option"

definition loadModel :: "'s Engine \<Rightarrow> 's YOLOv5Service \<Rightarrow> 's YOLOv5Service \<times> bool promise" where
  "loadModel engine this =
     (if modelLoaded this then (this, Inr True)
      else if modelLoading this then (this, Inr False)
      else (case createSession engine of
              Some s \<Rightarrow>
                (this\<lparr> session := Some s, modelLoaded := True, modelLoading := False \<rparr>,
                 Inr True)
            | None \<Rightarrow> (this\<lparr> modelLoading := False \<rparr>, Inl LoadError)))"

text \<open>
  The operator \<open>||\<close> on an optional number: the left operand unless it is falsy
  (\<open>undefined\<close>, 0 or \<open>NaN\<close>).
\<close>

definition js_or :: "jsnum option \<Rightarrow> jsnum \<Rightarrow> jsnum" where
  "js_or a d =
     (case a of
        None \<Rightarrow> d
      | Some NaN \<Rightarrow> d
      | Some (Num r) \<Rightarrow> (if r = 0 then d else Num r)
      | Some v \<Rightarrow> v)"

text \<open>
  \<open>detect\<close> returns the service as the call leaves it and the promise. Calling
  \<open>run\<close> on a session that is still \<open>null\<close> throws a \<open>TypeError\<close>.
\<close>

definition detect ::
  "'s Engine \<Rightarrow> 's YOLOv5Service \<Rightarrow> ImageData \<Rightarrow> jsnum option \<Rightarrow>
   's YOLOv5Service \<times> DetectionResult list promise" where
  "detect engine this imageData confidenceThreshold =
     (case (if \<not> modelLoaded this then loadModel engine this else (this, Inr True)) of
        (this', Inl e) \<Rightarrow> (this', Inl e)
      | (this', Inr _) \<Rightarrow>
          (case preprocess imageData of
             Inl e \<Rightarrow> (this', Inl e)
           | Inr preprocessedData \<Rightarrow>
               (case session this' of
                  None \<Rightarrow> (this', Inl TypeError)
                | Some s \<Rightarrow>
                    (case run engine s preprocessedData of
                       None \<Rightarrow> (this', Inl RunError)
                     | Some output \<Rightarrow>
                         (this',
                          postprocess (colors this') output
                            (Num (real (image_width imageData)))
                            (Num (real (image_height imageData)))
                            (Some (js_or confidenceThreshold (scoreThreshold modelConfig))))))))"

section \<open>Binary64 rounding\<close>

text \<open>
  The operations above compute the exact real result of an operation on finite
  numbers. The language rounds that result to the nearest binary64 number, ties to the
  even significand, and to an infinity beyond the largest one. \<open>binary64\<close> holds of the
  reals that are binary64 numbers, \<open>dbl\<close> is the rounding, and \<open>add64\<close>, \<open>sub64\<close>,
  \<open>mul64\<close> and \<open>div64\<close> are the operations as the language computes them: the exact
  result, rounded. The statements about the value of \<open>calculateIoU\<close> and about the box
  of a Detection are made on the rounded operations; the statements about which
  candidates are kept, in which order, are made on the exact ones.
\<close>

definition binary64 :: "real \<Rightarrow> bool" where
  "binary64 x = (\<exists>m e. x = of_int m * 2 powi e \<and> \<bar>m\<bar> < 2 ^ 53 \<and> - 1074 \<le> e \<and> e \<le> 971)"

text \<open>Rounding to the nearest whole number, a tie going to the even one.\<close>

definition rhe :: "real \<Rightarrow> int" where
  "rhe y =
     (let f = \<lfloor>y\<rfloor>; d = y - of_int f
      in if d < 1 / 2 then f
         else if 1 / 2 < d then f + 1
         else if even f then f else f + 1)"

text \<open>
  The rounding of a real: the exponent \<open>e\<close> of the last place is 52 below the binary
  exponent of the number, and not below that of the subnormal numbers.
\<close>

definition dbl :: "real \<Rightarrow> jsnum" where
  "dbl x =
     (if x = 0 then Num 0
      else
        let e = max (\<lfloor>log 2 \<bar>x\<bar>\<rfloor> - 52) (- 1074);
            v = of_int (rhe (x / 2 powi e)) * 2 powi e
        in if 2 ^ 1024 \<le> \<bar>v\<bar> then (if 0 < x then PInf else NInf) else Num v)"

fun fl :: "jsnum \<Rightarrow> jsnum" where
  "fl (Num r) = dbl r"
| "fl PInf = PInf"
| "fl NInf = NInf"
| "fl NaN = NaN"

definition add64 :: "jsnum \<Rightarrow> jsnum \<Rightarrow> jsnum" where
  "add64 a b = fl (js_add a b)"

definition sub64 :: "jsnum \<Rightarrow> jsnum \<Rightarrow> jsnum" where
  "sub64 a b = fl (js_sub a b)"

definition mul64 :: "jsnum \<Rightarrow> jsnum \<Rightarrow> jsnum" where
  "mul64 a b = fl (js_mul a b)"

definition div64 :: "jsnum \<Rightarrow> jsnum \<Rightarrow> jsnum" where
  "div64 a b = fl (js_div a b)"

text \<open>\<open>calculateIoU\<close>, every operation rounded.\<close>

definition calculateIoU64 :: "Box \<Rightarrow> Box \<Rightarrow> jsnum" where
  "calculateIoU64 box1 box2 =
     (case box1 of (x1, y1, w1, h1) \<Rightarrow>
      case box2 of (x2, y2, w2, h2) \<Rightarrow>
        let box1Right = add64 x1 w1;
            box1Bottom = add64 y1 h1;
            box2Right = add64 x2 w2;
            box2Bottom = add64 y2 h2;
            intersectLeft = Math_max x1 x2;
            intersectTop = Math_max y1 y2;
            intersectRight = Math_min box1Right box2Right;
            intersectBottom = Math_min box1Bottom box2Bottom
        in if js_lt intersectRight intersectLeft \<or> js_lt intersectBottom intersectTop
           then Num 0
           else
             let intersectArea =
                   mul64 (sub64 intersectRight intersectLeft)
                         (sub64 intersectBottom intersectTop);
                 box1Area = mul64 w1 h1;
                 box2Area = mul64 w2 h2;
                 unionArea = sub64 (add64 box1Area box2Area) intersectArea
             in div64 intersectArea unionArea)"

text \<open>
  The box that \<open>postprocess\<close> builds for the row at \<open>baseOffset\<close>, once the row has
  passed both tests: the statements of the branch from the reads of the four box values
  to \<open>left\<close> and \<open>top\<close>, every operation rounded.
\<close>

definition decodeBox64 :: "jsnum list \<Rightarrow> nat \<Rightarrow> jsnum \<Rightarrow> jsnum \<Rightarrow> Box" where
  "decodeBox64 predictions baseOffset imgWidth imgHeight =
     (let modelHeight = Num (real (inputShape modelConfig ! 2));
          modelWidth = Num (real (inputShape modelConfig ! 3));
          x = typed_at predictions baseOffset;
          y = typed_at predictions (baseOffset + 1);
          width = typed_at predictions (baseOffset + 2);
          height = typed_at predictions (baseOffset + 3);
          imageScaleX = div64 imgWidth modelWidth;
          imageScaleY = div64 imgHeight modelHeight;
          x = mul64 (mul64 x modelWidth) imageScaleX;
          y = mul64 (mul64 y modelHeight) imageScaleY;
          width = mul64 (mul64 width modelWidth) imageScaleX;
          height = mul64 (mul64 height modelHeight) imageScaleY;
          left = sub64 x (div64 width (Num 2));
          top = sub64 y (div64 height (Num 2))
      in (left, top, width, height))"

section \<open>Arithmetic on finite numbers\<close>

lemma Math_max_Num: "Math_max (Num a) (Num b) = Num (max a b)"
  by (simp add: Math_max_def max_def)

lemma Math_min_Num: "Math_min (Num a) (Num b) = Num (min a b)"
  by (simp add: Math_min_def min_def)

lemma js_sub_Num: "js_sub (Num a) (Num b) = Num (a - b)"
  by (simp add: js_sub_def)

lemma js_gt_Num: "js_gt (Num a) (Num b) = (b < a)"
  by (simp add: js_gt_def)

lemma js_gt_NaN: "\<not> js_gt NaN b" "\<not> js_gt a NaN"
  by (cases b; simp add: js_gt_def) (cases a; simp add: js_gt_def)

section \<open>Rounding to binary64\<close>

lemma rhe_of_int: "rhe (of_int n) = n"
  by (simp add: rhe_def)

lemma rhe_le: "y \<le> of_int N \<Longrightarrow> rhe y \<le> N"
  unfolding rhe_def Let_def by (auto; linarith)

lemma rhe_ge: "of_int N \<le> y \<Longrightarrow> N \<le> rhe y"
  unfolding rhe_def Let_def by (auto; linarith)

lemma powr_powi: "2 powr (of_int k) = (2::real) powi k"
  by (simp add: powr_real_of_int power_int_def field_simps)

lemma floor_log2_less:
  assumes "0 < x" "x < 2 powi n"
  shows "\<lfloor>log 2 x\<rfloor> < n"
proof -
  have "log 2 x < of_int n"
    using assms by (simp add: log_less_iff powr_powi)
  then show ?thesis by (simp add: floor_less_iff)
qed

lemma floor_log2_eq:
  assumes "0 < x" "2 powi k \<le> x" "x < 2 powi (k + 1)"
  shows "\<lfloor>log 2 x\<rfloor> = k"
  using assms floor_log_eq_powr_iff[of x 2 k] powr_powi[of k] powr_powi[of "k + 1"]
  by simp

lemma floor_log2_bounds:
  assumes "0 < x"
  shows "2 powi \<lfloor>log 2 x\<rfloor> \<le> x" "x < 2 powi (\<lfloor>log 2 x\<rfloor> + 1)"
  using floor_log_eq_powr_iff[of x 2 "\<lfloor>log 2 x\<rfloor>"] assms
    powr_powi[of "\<lfloor>log 2 x\<rfloor>"] powr_powi[of "\<lfloor>log 2 x\<rfloor> + 1"]
  by simp_all

lemma binary64_0: "binary64 0"
  unfolding binary64_def by (rule exI[of _ 0], rule exI[of _ 0]) simp

lemma binary64_int: "\<bar>n\<bar> < 2 ^ 53 \<Longrightarrow> binary64 (of_int n)"
  unfolding binary64_def by (rule exI[of _ n], rule exI[of _ 0]) simp

lemma binary64_1: "binary64 1"
  using binary64_int[of 1] by simp

lemma binary64_numeral: "numeral k < (2::int) ^ 53 \<Longrightarrow> binary64 (numeral k)"
  using binary64_int[of "numeral k"] by simp

lemma binary64_dyadic:
  "\<bar>m\<bar> < 2 ^ 53 \<Longrightarrow> - 1074 \<le> e \<Longrightarrow> e \<le> 971 \<Longrightarrow> binary64 (of_int m * 2 powi e)"
  unfolding binary64_def by blast

lemma binary64_half: "\<bar>m\<bar> < 2 ^ 53 \<Longrightarrow> binary64 (of_int m / 2)"
  using binary64_dyadic[of m "- 1"] by (simp add: power_int_minus field_simps)

lemma binary64_pow512: "binary64 (2 ^ 512)"
  unfolding binary64_def by (rule exI[of _ 1], rule exI[of _ 512]) simp

text \<open>A binary64 number is its own rounding.\<close>

lemma dbl_exact:
  assumes "binary64 x"
  shows "dbl x = Num x"
proof (cases "x = 0")
  case True
  then show ?thesis by (simp add: dbl_def)
next
  case False
  from assms obtain m e0 where x: "x = of_int m * 2 powi e0"
    and m: "\<bar>m\<bar> < 2 ^ 53" and e0: "- 1074 \<le> e0" "e0 \<le> 971"
    unfolding binary64_def by blast
  define k where "k = \<lfloor>log 2 \<bar>x\<bar>\<rfloor>"
  define e where "e = max (k - 52) (- 1074)"
  have ax: "\<bar>x\<bar> = of_int \<bar>m\<bar> * 2 powi e0"
    by (simp add: x abs_mult power_int_abs)
  have "of_int \<bar>m\<bar> < (2::real) ^ 53" using m by (metis of_int_less_iff of_int_numeral of_int_power)
  then have "\<bar>x\<bar> < 2 ^ 53 * 2 powi e0"
    unfolding ax by (simp add: mult_strict_right_mono)
  also have "\<dots> = 2 powi (53 + e0)"
    by (simp add: power_int_add)
  finally have lt: "\<bar>x\<bar> < 2 powi (53 + e0)" .
  from False have "0 < \<bar>x\<bar>" by simp
  from floor_log2_less[OF this lt] have "k < 53 + e0" by (simp add: k_def)
  with e0 have ee: "e \<le> e0" by (simp add: e_def)
  have q: "x / 2 powi e = of_int (m * 2 ^ nat (e0 - e))"
  proof -
    have "(2::real) powi e0 / 2 powi e = 2 powi (e0 - e)"
      by (simp add: power_int_diff)
    also have "\<dots> = 2 ^ nat (e0 - e)" using ee by (simp add: power_int_nonneg_exp)
    finally have h: "(2::real) powi e0 / 2 powi e = 2 ^ nat (e0 - e)" .
    have "x / 2 powi e = of_int m * (2 powi e0 / 2 powi e)" by (simp add: x)
    then show ?thesis unfolding h by simp
  qed
  have v: "of_int (rhe (x / 2 powi e)) * 2 powi e = x"
  proof -
    have "of_int (rhe (x / 2 powi e)) = x / 2 powi e"
      unfolding q rhe_of_int ..
    then show ?thesis by simp
  qed
  have "(2::real) powi (53 + e0) \<le> 2 powi 1024"
    using e0 by (intro power_int_increasing) simp_all
  with lt have "\<bar>x\<bar> < 2 ^ 1024" by simp
  then show ?thesis
    using False unfolding dbl_def Let_def k_def[symmetric] e_def[symmetric] v by simp
qed

lemma dbl_not_NaN: "dbl x \<noteq> NaN"
  by (simp add: dbl_def Let_def)

text \<open>The rounding of a real is a binary64 number, or an infinity.\<close>

lemma dbl_range:
  assumes "dbl x = Num a"
  shows "binary64 a"
proof (cases "x = 0")
  case True
  with assms show ?thesis by (simp add: dbl_def binary64_0)
next
  case False
  define k where "k = \<lfloor>log 2 \<bar>x\<bar>\<rfloor>"
  define e where "e = max (k - 52) (- 1074)"
  define n where "n = rhe (x / 2 powi e)"
  from assms False have v: "a = of_int n * 2 powi e" and fin: "\<bar>of_int n * 2 powi e :: real\<bar> < 2 ^ 1024"
    unfolding dbl_def Let_def k_def[symmetric] e_def[symmetric] n_def[symmetric]
    by (auto split: if_splits)
  from False have pos: "0 < \<bar>x\<bar>" by simp
  from floor_log2_bounds[OF pos] have lo: "2 powi k \<le> \<bar>x\<bar>" and hi: "\<bar>x\<bar> < 2 powi (k + 1)"
    by (simp_all add: k_def)
  have e_lo: "- 1074 \<le> e" and e_k: "k - 52 \<le> e" by (simp_all add: e_def)
  have p: "0 < (2::real) powi e" by simp
  have "x / 2 powi e < 2 powi (k + 1) / 2 powi e"
    using hi p by (simp add: divide_strict_right_mono abs_less_iff)
  also have "\<dots> = 2 powi (k + 1 - e)" by (simp add: power_int_diff)
  also have "\<dots> \<le> 2 powi 53" using e_k by (intro power_int_increasing) simp_all
  finally have "x / 2 powi e \<le> of_int (2 ^ 53)" by simp
  then have n_hi: "n \<le> 2 ^ 53" unfolding n_def by (rule rhe_le)
  have "- (2 powi (k + 1)) < x" using hi by (simp add: abs_less_iff)
  then have "- (2 powi (k + 1)) / 2 powi e < x / 2 powi e"
    using p by (rule divide_strict_right_mono)
  then have "- (2 powi (k + 1) / 2 powi e) < x / 2 powi e" by simp
  moreover have "2 powi (k + 1) / 2 powi e \<le> (2::real) powi 53"
  proof -
    have "2 powi (k + 1) / 2 powi e = (2::real) powi (k + 1 - e)" by (simp add: power_int_diff)
    also have "\<dots> \<le> 2 powi 53" using e_k by (intro power_int_increasing) simp_all
    finally show ?thesis .
  qed
  ultimately have "of_int (- (2 ^ 53)) \<le> x / 2 powi e" by simp
  then have n_lo: "- (2 ^ 53) \<le> n" unfolding n_def by (rule rhe_ge)
  have an: "\<bar>of_int n * 2 powi e :: real\<bar> = of_int \<bar>n\<bar> * 2 powi e"
    by (simp add: abs_mult)
  show ?thesis
  proof (cases "\<bar>n\<bar> = 2 ^ 53")
    case True
    have "e < 971"
    proof (rule ccontr)
      assume "\<not> e < 971"
      then have "(2::real) powi 971 \<le> 2 powi e" by (intro power_int_increasing) simp_all
      then have "(2::real) ^ 53 * 2 powi 971 \<le> of_int \<bar>n\<bar> * 2 powi e"
        unfolding True by simp
      with fin show False unfolding an by simp
    qed
    from True have nn: "n = 2 ^ 53 \<or> n = - (2 ^ 53)" by linarith
    have "a = of_int (n div 2) * 2 powi (e + 1)"
    proof -
      from nn have "of_int n = (of_int (n div 2) :: real) * 2" by auto
      then show ?thesis unfolding v by (simp add: power_int_add)
    qed
    moreover from nn have "\<bar>n div 2\<bar> < 2 ^ 53" by auto
    ultimately show ?thesis
      unfolding binary64_def using e_lo \<open>e < 971\<close>
      by (intro exI[of _ "n div 2"] exI[of _ "e + 1"]) simp
  next
    case False
    with n_hi n_lo have nb: "\<bar>n\<bar> < 2 ^ 53" by linarith
    have "e \<le> 971"
    proof (rule ccontr)
      assume c: "\<not> e \<le> 971"
      then have ek: "e = k - 52" by (simp add: e_def)
      have "(2::real) powi 52 = 2 powi k / 2 powi e" by (simp add: ek power_int_diff)
      also have "\<dots> \<le> \<bar>x\<bar> / 2 powi e" using lo p by (simp add: divide_right_mono)
      finally have q: "of_int (2 ^ 52) \<le> \<bar>x / 2 powi e\<bar>" by (simp add: abs_divide)
      have "2 ^ 52 \<le> \<bar>n\<bar>"
      proof (cases "0 \<le> x")
        case True
        with q have "of_int (2 ^ 52) \<le> x / 2 powi e" by (simp add: abs_of_nonneg)
        from rhe_ge[OF this] show ?thesis unfolding n_def by simp
      next
        case False
        with q have "x / 2 powi e \<le> of_int (- (2 ^ 52))"
          by (simp add: abs_of_neg divide_neg_pos)
        from rhe_le[OF this] show ?thesis unfolding n_def by simp
      qed
      then have "(2::real) ^ 52 \<le> of_int \<bar>n\<bar>"
        by (metis of_int_le_iff of_int_numeral of_int_power)
      moreover have "(2::real) powi 972 \<le> 2 powi e" using c by (intro power_int_increasing) simp_all
      ultimately have "(2::real) ^ 52 * 2 powi 972 \<le> of_int \<bar>n\<bar> * 2 powi e"
        by (intro mult_mono) simp_all
      with fin show False unfolding an by simp
    qed
    with nb e_lo v show ?thesis
      unfolding binary64_def by (intro exI[of _ n] exI[of _ e]) simp
  qed
qed

text \<open>
  The rounding of a positive real in the range of the normal numbers, from the rounding
  of its significand.
\<close>

lemma dbl_normal:
  assumes "2 powi k \<le> x" "x < 2 powi (k + 1)" "- 1022 \<le> k" "k \<le> 1022"
    and "rhe (x / 2 powi (k - 52)) = n"
  shows "dbl x = Num (of_int n * 2 powi (k - 52))"
proof -
  have p: "(0::real) < 2 powi k" by simp
  with assms(1) have pos: "0 < x" by linarith
  then have ax: "\<bar>x\<bar> = x" by simp
  have fl: "\<lfloor>log 2 \<bar>x\<bar>\<rfloor> = k" unfolding ax using pos assms(1,2) by (rule floor_log2_eq)
  have e: "max (k - 52) (- 1074) = k - 52" using assms(3) by simp
  have "x / 2 powi (k - 52) \<le> (2::real) powi (k + 1) / 2 powi (k - 52)"
    using assms(2) by (simp add: divide_right_mono)
  also have "\<dots> = 2 powi 53" by (simp add: power_int_diff[symmetric])
  also have "\<dots> = of_int (2 ^ 53)" by simp
  finally have "rhe (x / 2 powi (k - 52)) \<le> 2 ^ 53" by (rule rhe_le)
  then have nu: "n \<le> 2 ^ 53" unfolding assms(5) .
  have "of_int 0 \<le> x / 2 powi (k - 52)" using pos by simp
  then have "0 \<le> rhe (x / 2 powi (k - 52))" by (rule rhe_ge)
  then have nl: "0 \<le> n" unfolding assms(5) .
  have "of_int n \<le> (2::real) ^ 53" using nu by (metis of_int_le_iff of_int_numeral of_int_power)
  then have "of_int n * (2::real) powi (k - 52) \<le> 2 ^ 53 * 2 powi (k - 52)"
    by (simp add: mult_right_mono)
  also have "\<dots> = (2::real) powi 53 * 2 powi (k - 52)" by simp
  also have "\<dots> = (2::real) powi (k + 1)"
    by (subst power_int_add[symmetric]) (simp_all add: add.commute)
  also have "\<dots> \<le> (2::real) powi 1023" using assms(4) by (intro power_int_increasing) simp_all
  also have "\<dots> < (2::real) powi 1024" by (intro power_int_strict_increasing) simp_all
  finally have "of_int n * (2::real) powi (k - 52) < 2 ^ 1024" by simp
  moreover have "0 \<le> of_int n * (2::real) powi (k - 52)" using nl by simp
  ultimately have "\<not> 2 ^ 1024 \<le> \<bar>of_int n * (2::real) powi (k - 52)\<bar>" by simp
  then show ?thesis
    using pos unfolding dbl_def Let_def fl e assms(5) by simp
qed

text \<open>A tie goes to the even significand; beyond the largest number is infinity.\<close>

lemma dbl_tie: "dbl (2 ^ 53 + 1) = Num (2 ^ 53)"
proof -
  have k: "\<lfloor>log 2 \<bar>2 ^ 53 + 1 :: real\<bar>\<rfloor> = 53"
    by (rule floor_log2_eq) simp_all
  have r: "rhe ((2 ^ 53 + 1) / 2) = 2 ^ 52"
  proof -
    have "((2::real) ^ 53 + 1) / 2 = of_int (2 ^ 52) + 1 / 2" by simp
    moreover have "\<lfloor>of_int (2 ^ 52) + (1 / 2 :: real)\<rfloor> = 2 ^ 52" by linarith
    ultimately show ?thesis unfolding rhe_def Let_def by simp
  qed
  show ?thesis
    unfolding dbl_def Let_def k using r by simp
qed

lemma dbl_overflow: "dbl (2 ^ 1024) = PInf"
proof -
  have k: "\<lfloor>log 2 \<bar>2 ^ 1024 :: real\<bar>\<rfloor> = 1024"
    by (rule floor_log2_eq) simp_all
  show ?thesis
    unfolding dbl_def Let_def k by (simp add: rhe_def)
qed

text \<open>Below half of the smallest positive number is 0.\<close>

lemma dbl_underflow:
  assumes "k < - 1075"
  shows "dbl (2 powi k) = Num 0"
proof -
  have pos: "(0::real) < 2 powi k" by simp
  have lt: "(2::real) powi k < 2 powi (k + 1)" by (intro power_int_strict_increasing) simp_all
  have fl: "\<lfloor>log 2 \<bar>(2::real) powi k\<bar>\<rfloor> = k"
    unfolding abs_of_pos[OF pos] using pos order_refl lt by (rule floor_log2_eq)
  have e: "max (k - 52) (- 1074) = - 1074" using assms by simp
  have "(2::real) powi (k + 1074) = 2 powi (k - (- 1074))" by simp
  also have "\<dots> = 2 powi k / 2 powi (- 1074)" by (rule power_int_diff) simp
  finally have "(2::real) powi k / 2 powi (- 1074) = 2 powi (k + 1074)" by (rule sym)
  moreover have "(2::real) powi (k + 1074) \<le> 2 powi (- 2)"
    using assms by (intro power_int_increasing) simp_all
  moreover have "(0::real) < 2 powi (k + 1074)" by simp
  ultimately have y: "0 < (2::real) powi k / 2 powi (- 1074)"
    "(2::real) powi k / 2 powi (- 1074) \<le> 1 / 4" by (simp_all add: power_int_minus)
  then have "\<lfloor>(2::real) powi k / 2 powi (- 1074)\<rfloor> = 0" by linarith
  with y have r: "rhe ((2::real) powi k / 2 powi (- 1074)) = 0"
    unfolding rhe_def Let_def by simp
  show ?thesis
    unfolding dbl_def Let_def fl e r using pos by simp
qed

text \<open>An operation whose exact result is a binary64 number returns it.\<close>

lemma add64_exact: "binary64 (a + b) \<Longrightarrow> add64 (Num a) (Num b) = Num (a + b)"
  by (simp add: add64_def dbl_exact)

lemma sub64_exact: "binary64 (a - b) \<Longrightarrow> sub64 (Num a) (Num b) = Num (a - b)"
  by (simp add: sub64_def js_sub_Num dbl_exact)

lemma mul64_exact: "binary64 (a * b) \<Longrightarrow> mul64 (Num a) (Num b) = Num (a * b)"
  by (simp add: mul64_def dbl_exact)

lemma div64_exact: "b \<noteq> 0 \<Longrightarrow> binary64 (a / b) \<Longrightarrow> div64 (Num a) (Num b) = Num (a / b)"
  by (simp add: div64_def dbl_exact)

lemma add64_Num_not_NaN: "add64 (Num a) (Num b) \<noteq> NaN"
  by (simp add: add64_def dbl_not_NaN)

section \<open>Intersection over union\<close>

text \<open>On finite boxes the function is the real quotient, behind its two tests.\<close>

lemma calculateIoU_Num:
  "calculateIoU (Num x1, Num y1, Num w1, Num h1) (Num x2, Num y2, Num w2, Num h2) =
     (if min (x1 + w1) (x2 + w2) < max x1 x2 \<or> min (y1 + h1) (y2 + h2) < max y1 y2
      then Num 0
      else js_div
             (Num ((min (x1 + w1) (x2 + w2) - max x1 x2) *
                   (min (y1 + h1) (y2 + h2) - max y1 y2)))
             (Num (w1 * h1 + w2 * h2
                   - (min (x1 + w1) (x2 + w2) - max x1 x2) *
                     (min (y1 + h1) (y2 + h2) - max y1 y2))))"
  by (simp add: calculateIoU_def Math_max_Num Math_min_Num js_sub_Num Let_def)

text \<open>
  With the rounded operations: an extent of the intersection whose right end is the left
  end of a box of width 0 is 0 once the test on the intersection has passed.
\<close>

lemma empty_extent:
  assumes "R2 \<noteq> NaN" "\<not> js_lt (Math_min (Num c) R2) (Num (max c c'))"
  shows "sub64 (Math_min (Num c) R2) (Num (max c c')) = Num 0"
proof (cases R2)
  case (Num r)
  with assms(2) have "min c r = max c c'" by (simp add: Math_min_Num min_def max_def split: if_splits)
  then show ?thesis using Num by (simp add: Math_min_Num sub64_def js_sub_Num dbl_def)
next
  case PInf
  with assms(2) have "c = max c c'" by (simp add: Math_min_def max_def split: if_splits)
  then show ?thesis using PInf
    by (simp add: Math_min_def sub64_def js_sub_Num dbl_def)
next
  case NInf
  with assms(2) show ?thesis by (simp add: Math_min_def)
next
  case NaN
  with assms(1) show ?thesis by simp
qed

lemma mul64_zero_left: "mul64 (Num 0) F = Num 0 \<or> mul64 (Num 0) F = NaN"
  by (cases F) (simp_all add: mul64_def dbl_def)

lemma mul64_zero_right: "mul64 F (Num 0) = Num 0 \<or> mul64 F (Num 0) = NaN"
  by (cases F) (simp_all add: mul64_def dbl_def)

lemma quotient_of_nothing:
  assumes "iA = Num 0 \<or> iA = NaN"
  shows "div64 iA (sub64 (add64 (Num 0) (Num 0)) iA) = NaN"
  using assms by (auto simp: div64_def sub64_def add64_def js_sub_def dbl_def)

text \<open>
  C3, as the claim states it, fails: two copies of the empty box at the origin have
  union area 0, no test of the function stops them, and the quotient \<open>0 / 0\<close> is
  \<open>NaN\<close>, not 0.
\<close>

theorem calculateIoU64_zero_union_counterexample:
  "calculateIoU64 (Num 0, Num 0, Num 0, Num 0) (Num 0, Num 0, Num 0, Num 0) = NaN \<and>
   calculateIoU64 (Num 0, Num 0, Num 0, Num 0) (Num 0, Num 0, Num 0, Num 0) \<noteq> Num 0"
  by (simp add: calculateIoU64_def add64_def sub64_def mul64_def div64_def js_sub_Num
        Math_max_Num Math_min_Num Let_def dbl_def)

text \<open>
  C3 (amended): for two boxes of finite values whose width or height is 0 (the left and
  the top of the first one being numbers of the language), \<open>calculateIoU\<close> has no guard
  on the union area. It returns 0 when its test on the intersection, made on the
  rounded right and bottom ends, finds the boxes apart, and otherwise divides 0 by 0 and
  returns \<open>NaN\<close>. In both cases the result is not above any threshold that is at least
  0, so it never makes the suppression discard a candidate.
\<close>

theorem calculateIoU64_zero_union:
  assumes "binary64 x1" "binary64 y1" "w1 * h1 = 0" "w2 * h2 = 0"
  shows "calculateIoU64 (Num x1, Num y1, Num w1, Num h1) (Num x2, Num y2, Num w2, Num h2) =
           (if js_lt (Math_min (add64 (Num x1) (Num w1)) (add64 (Num x2) (Num w2)))
                     (Math_max (Num x1) (Num x2)) \<or>
               js_lt (Math_min (add64 (Num y1) (Num h1)) (add64 (Num y2) (Num h2)))
                     (Math_max (Num y1) (Num y2))
            then Num 0 else NaN) \<and>
         (0 \<le> t \<longrightarrow>
            \<not> js_gt (calculateIoU64 (Num x1, Num y1, Num w1, Num h1)
                                       (Num x2, Num y2, Num w2, Num h2)) (Num t))"
proof -
  define iR where "iR = Math_min (add64 (Num x1) (Num w1)) (add64 (Num x2) (Num w2))"
  define iB where "iB = Math_min (add64 (Num y1) (Num h1)) (add64 (Num y2) (Num h2))"
  define iA where "iA = mul64 (sub64 iR (Num (max x1 x2))) (sub64 iB (Num (max y1 y2)))"
  have a: "mul64 (Num w1) (Num h1) = Num 0" "mul64 (Num w2) (Num h2) = Num 0"
    using assms(3,4) by (simp_all add: mul64_def dbl_def)
  have u: "calculateIoU64 (Num x1, Num y1, Num w1, Num h1) (Num x2, Num y2, Num w2, Num h2) =
     (if js_lt iR (Num (max x1 x2)) \<or> js_lt iB (Num (max y1 y2)) then Num 0
      else div64 iA (sub64 (add64 (Num 0) (Num 0)) iA))"
    unfolding calculateIoU64_def iR_def iB_def iA_def
    by (simp add: Let_def Math_max_Num a)
  have n: "div64 iA (sub64 (add64 (Num 0) (Num 0)) iA) = NaN"
    if g: "\<not> js_lt iR (Num (max x1 x2))" "\<not> js_lt iB (Num (max y1 y2))"
  proof -
    from assms(3) have "w1 = 0 \<or> h1 = 0" by simp
    then have "iA = Num 0 \<or> iA = NaN"
    proof
      assume "w1 = 0"
      then have "iR = Math_min (Num x1) (add64 (Num x2) (Num w2))"
        using assms(1) by (simp add: iR_def add64_def dbl_exact)
      with g(1) have "sub64 iR (Num (max x1 x2)) = Num 0"
        using empty_extent[OF add64_Num_not_NaN, of x1 x2 w2 x2] by simp
      then show ?thesis unfolding iA_def using mul64_zero_left by simp
    next
      assume "h1 = 0"
      then have "iB = Math_min (Num y1) (add64 (Num y2) (Num h2))"
        using assms(2) by (simp add: iB_def add64_def dbl_exact)
      with g(2) have "sub64 iB (Num (max y1 y2)) = Num 0"
        using empty_extent[OF add64_Num_not_NaN, of y1 y2 h2 y2] by simp
      then show ?thesis unfolding iA_def using mul64_zero_right by simp
    qed
    then show ?thesis by (rule quotient_of_nothing)
  qed
  have c: "calculateIoU64 (Num x1, Num y1, Num w1, Num h1) (Num x2, Num y2, Num w2, Num h2) =
     (if js_lt (Math_min (add64 (Num x1) (Num w1)) (add64 (Num x2) (Num w2)))
               (Math_max (Num x1) (Num x2)) \<or>
         js_lt (Math_min (add64 (Num y1) (Num h1)) (add64 (Num y2) (Num h2)))
               (Math_max (Num y1) (Num y2))
      then Num 0 else NaN)"
    unfolding u using n
    by (simp add: iR_def[symmetric] iB_def[symmetric] Math_max_Num)
  show ?thesis
    by (simp only: c) (simp add: js_gt_Num js_gt_NaN)
qed

theorem calculateIoU64_zero_union_witness:
  "binary64 0 \<and>
   calculateIoU64 (Num 0, Num 0, Num 0, Num 5) (Num 0, Num 2, Num 3, Num 0) = NaN \<and>
   \<not> js_gt (calculateIoU64 (Num 0, Num 0, Num 0, Num 5) (Num 0, Num 2, Num 3, Num 0))
            (Num (45 / 100)) \<and>
   calculateIoU64 (Num 0, Num 0, Num 0, Num 5) (Num 1, Num 2, Num 3, Num 0) = Num 0"
proof -
  have e: "dbl 0 = Num 0" "dbl 2 = Num 2" "dbl 3 = Num 3" "dbl 4 = Num 4" "dbl 5 = Num 5"
    by (simp_all add: dbl_exact binary64_numeral binary64_0)
  from calculateIoU64_zero_union[OF binary64_0 binary64_0, of 0 5 3 0 0 2 "45 / 100"]
       calculateIoU64_zero_union[OF binary64_0 binary64_0, of 0 5 3 0 1 2 0]
  show ?thesis
    by (simp add: add64_def e Math_min_Num Math_max_Num js_gt_NaN binary64_0)
qed

text \<open>
  A box against itself. With width 0 the intersection and the union both have area 0;
  with the left end \<open>2 ^ 53\<close> and width 1 the right end is rounded back to the left
  end and the intersection is empty; with width and height \<open>2 ^ 512\<close> the areas are
  infinite; with width and height \<open>2 ^ - 600\<close> the areas are rounded to 0.
\<close>

lemma calculateIoU64_zero_width:
  "calculateIoU64 (Num 3, Num 4, Num 0, Num 7) (Num 3, Num 4, Num 0, Num 7) = NaN"
proof -
  have e: "dbl 3 = Num 3" "dbl 11 = Num 11" "dbl 7 = Num 7" "dbl 0 = Num 0"
    by (simp_all add: dbl_exact binary64_numeral binary64_0)
  show ?thesis
    by (simp add: calculateIoU64_def add64_def sub64_def mul64_def div64_def js_sub_Num
          Math_max_Num Math_min_Num Let_def e)
qed

lemma calculateIoU64_rounded_sum:
  "calculateIoU64 (Num (2 ^ 53), Num 0, Num 1, Num 1) (Num (2 ^ 53), Num 0, Num 1, Num 1) = Num 0"
proof -
  have e: "dbl 1 = Num 1" "dbl 2 = Num 2" "dbl 0 = Num 0"
    by (simp_all add: dbl_exact binary64_numeral binary64_0 binary64_1)
  have t: "dbl (2 ^ 53 + 1) = Num (2 ^ 53)" by (rule dbl_tie)
  have "calculateIoU64 (Num (2 ^ 53), Num 0, Num 1, Num 1) (Num (2 ^ 53), Num 0, Num 1, Num 1) =
    div64 (mul64 (sub64 (Num (2 ^ 53)) (Num (2 ^ 53))) (sub64 (Num 1) (Num 0)))
      (sub64 (add64 (Num 1) (Num 1))
         (mul64 (sub64 (Num (2 ^ 53)) (Num (2 ^ 53))) (sub64 (Num 1) (Num 0))))"
    unfolding calculateIoU64_def
    by (simp add: Let_def add64_def t e Math_max_Num Math_min_Num mul64_def del: power_numeral)
  also have "\<dots> = Num 0"
    by (simp add: add64_def sub64_def mul64_def div64_def js_sub_Num e del: power_numeral)
  finally show ?thesis .
qed

lemma calculateIoU64_overflow:
  "calculateIoU64 (Num 0, Num 0, Num (2 ^ 512), Num (2 ^ 512))
                  (Num 0, Num 0, Num (2 ^ 512), Num (2 ^ 512)) = NaN"
proof -
  have p: "dbl (2 ^ 512) = Num (2 ^ 512)" using binary64_pow512 by (rule dbl_exact)
  show ?thesis
    unfolding calculateIoU64_def
    by (simp add: Let_def add64_def sub64_def mul64_def div64_def js_sub_def
          Math_max_Num Math_min_Num p dbl_overflow del: power_numeral)
qed

lemma calculateIoU64_vanishing_area:
  assumes "binary64 w" "0 < w" "dbl (w * w) = Num 0"
  shows "calculateIoU64 (Num 0, Num 0, Num w, Num w) (Num 0, Num 0, Num w, Num w) = NaN"
proof -
  have e: "dbl w = Num w" using assms(1) by (rule dbl_exact)
  show ?thesis
    unfolding calculateIoU64_def
    using assms(2)
    by (simp add: Let_def add64_def sub64_def mul64_def div64_def js_sub_Num
          Math_max_Num Math_min_Num e assms(3) dbl_def[of 0])
qed

lemma calculateIoU64_underflow:
  "calculateIoU64 (Num 0, Num 0, Num (2 powi (- 600)), Num (2 powi (- 600)))
                  (Num 0, Num 0, Num (2 powi (- 600)), Num (2 powi (- 600))) = NaN"
proof (rule calculateIoU64_vanishing_area)
  show "binary64 (2 powi (- 600))"
    using binary64_dyadic[of 1 "- 600"] by (simp del: power_numeral)
  show "(0::real) < 2 powi (- 600)" by (rule zero_less_power_int) simp
  have "(2::real) powi (- 600) * 2 powi (- 600) = 2 powi (- 600 + - 600)"
    by (rule power_int_add[symmetric]) simp
  also have "\<dots> = 2 powi (- 1200)" by simp
  finally have p: "(2::real) powi (- 600) * 2 powi (- 600) = 2 powi (- 1200)" .
  show "dbl (2 powi (- 600) * 2 powi (- 600)) = Num 0"
    unfolding p by (rule dbl_underflow) simp
qed

text \<open>
  C8, as the claim states it, fails: on the box of width 0 the result is \<open>NaN\<close>, on
  the box of width 1 at \<open>2 ^ 53\<close> it is 0, and on the boxes of width and height
  \<open>2 ^ 512\<close> and \<open>2 ^ - 600\<close> it is \<open>NaN\<close>.
\<close>

theorem calculateIoU64_self_counterexample:
  "calculateIoU64 (Num 3, Num 4, Num 0, Num 7) (Num 3, Num 4, Num 0, Num 7) = NaN \<and>
   calculateIoU64 (Num (2 ^ 53), Num 0, Num 1, Num 1) (Num (2 ^ 53), Num 0, Num 1, Num 1) =
     Num 0 \<and>
   calculateIoU64 (Num 0, Num 0, Num (2 ^ 512), Num (2 ^ 512))
                  (Num 0, Num 0, Num (2 ^ 512), Num (2 ^ 512)) = NaN \<and>
   calculateIoU64 (Num 0, Num 0, Num (2 powi (- 600)), Num (2 powi (- 600)))
                  (Num 0, Num 0, Num (2 powi (- 600)), Num (2 powi (- 600))) = NaN"
  by (intro conjI)
     (fact calculateIoU64_zero_width, fact calculateIoU64_rounded_sum,
      fact calculateIoU64_overflow, fact calculateIoU64_underflow)

text \<open>
  C8 (amended): \<open>calculateIoU b b = 1\<close> for every box \<open>b\<close> of positive width and
  height (both numbers of the language) whose right and bottom ends \<open>x + w\<close> and
  \<open>y + h\<close> are computed without rounding and whose area \<open>a\<close>, as the multiplication
  returns it, is finite and not 0, with \<open>a + a\<close> finite as well.
\<close>

theorem calculateIoU64_self:
  assumes "binary64 w" "binary64 h" "0 < w" "0 < h"
    and "binary64 (x + w)" "binary64 (y + h)"
    and "mul64 (Num w) (Num h) = Num a" "a \<noteq> 0" "binary64 (a + a)"
  shows "calculateIoU64 (Num x, Num y, Num w, Num h) (Num x, Num y, Num w, Num h) = Num 1"
proof -
  from assms(7) have "dbl (w * h) = Num a" by (simp add: mul64_def)
  then have ba: "binary64 a" by (rule dbl_range)
  have r: "add64 (Num x) (Num w) = Num (x + w)" using assms(5) by (rule add64_exact)
  have b: "add64 (Num y) (Num h) = Num (y + h)" using assms(6) by (rule add64_exact)
  have dw: "sub64 (Num (x + w)) (Num x) = Num w"
    using sub64_exact[of "x + w" x] assms(1) by simp
  have dh: "sub64 (Num (y + h)) (Num y) = Num h"
    using sub64_exact[of "y + h" y] assms(2) by simp
  have s: "add64 (Num a) (Num a) = Num (2 * a)"
    using add64_exact[of a a] assms(9) by simp
  have u: "sub64 (Num (2 * a)) (Num a) = Num a"
    using sub64_exact[of "2 * a" a] ba by simp
  have q: "div64 (Num a) (Num a) = Num 1"
    using div64_exact[of a a] assms(8) binary64_1 by simp
  show ?thesis
    unfolding calculateIoU64_def
    using assms(3,4)
    by (simp add: Let_def r b Math_max_Num Math_min_Num dw dh assms(7) s u q)
qed

theorem calculateIoU64_self_witness:
  "mul64 (Num 3) (Num 4) = Num 12 \<and> binary64 (1 + 3) \<and> binary64 (2 + 4) \<and>
   calculateIoU64 (Num 1, Num 2, Num 3, Num 4) (Num 1, Num 2, Num 3, Num 4) = Num 1"
proof -
  have m: "mul64 (Num 3) (Num 4) = Num 12"
    using mul64_exact[of 3 4] by (simp add: binary64_numeral)
  have b: "binary64 3" "binary64 4" "binary64 (1 + 3)" "binary64 (2 + 4)" "binary64 (12 + 12)"
    by (simp_all add: binary64_numeral)
  from calculateIoU64_self[OF b(1,2) _ _ b(3,4) m _ b(5)] m b(3,4) show ?thesis by simp
qed

section \<open>Frames of width or height 0\<close>

lemma replicate_update_same: "(replicate n a)[i := a] = replicate n a"
  by (induction n arbitrary: i) (auto split: nat.split)

lemma fold_fixed: "(\<And>x. f x s = s) \<Longrightarrow> fold f xs s = s"
  by (induction xs) simp_all

lemma not_inside_empty: "\<not> (js_ge a off \<and> js_lt a (js_add off (Num 0)))"
  by (cases off; cases a; simp add: js_ge_def)

lemma not_inside_NaN: "\<not> js_ge a NaN"
  by (simp add: js_ge_def)

text \<open>A target pixel outside the resized image leaves a buffer of zeros as it is.\<close>

lemma preprocess_pixel_outside:
  assumes "\<not> (js_ge (Num (real x)) offsetX \<and>
             js_lt (Num (real x)) (js_add offsetX resizedWidth) \<and>
             js_ge (Num (real y)) offsetY \<and>
             js_lt (Num (real y)) (js_add offsetY resizedHeight))"
  shows "preprocess_pixel imageData resizeRatio resizedWidth resizedHeight offsetX offsetY
     height width y x (replicate n (Num 0)) = replicate n (Num 0)"
  using assms unfolding preprocess_pixel_def Let_def
  by (simp only: if_False replicate_update_same)

text \<open>
  With a frame of width 0 the resized width is 0, or it is \<open>NaN\<close> (when the height is
  0 as well, the ratio is infinite) and so is the horizontal offset.
\<close>

lemma resized_zero_width:
  assumes "iw = 0" "0 < W" "0 < H"
  shows "Math_floor (js_mul (Num (real iw))
           (Math_min (js_div (Num W) (Num (real iw))) (js_div (Num H) (Num (real ih))))) = Num 0 \<or>
         js_div (js_sub (Num W) (Math_floor (js_mul (Num (real iw))
           (Math_min (js_div (Num W) (Num (real iw))) (js_div (Num H) (Num (real ih)))))))
           (Num 2) = NaN"
proof (cases "ih = 0")
  case True
  with assms show ?thesis by (simp add: Math_min_def js_sub_def)
next
  case False
  with assms show ?thesis by (simp add: Math_min_def js_sub_def)
qed

lemma resized_zero_height:
  assumes "ih = 0" "0 < W" "0 < H"
  shows "Math_floor (js_mul (Num (real ih))
           (Math_min (js_div (Num W) (Num (real iw))) (js_div (Num H) (Num (real ih))))) = Num 0 \<or>
         js_div (js_sub (Num H) (Math_floor (js_mul (Num (real ih))
           (Math_min (js_div (Num W) (Num (real iw))) (js_div (Num H) (Num (real ih)))))))
           (Num 2) = NaN"
proof (cases "iw = 0")
  case True
  with assms show ?thesis by (simp add: Math_min_def js_sub_def)
next
  case False
  with assms show ?thesis by (simp add: Math_min_def js_sub_def)
qed

lemma never_inside:
  assumes "iw = 0 \<or> ih = 0" "0 < W" "0 < H"
  defines "ratio \<equiv> Math_min (js_div (Num W) (Num (real iw))) (js_div (Num H) (Num (real ih)))"
  shows "\<not> (js_ge a (js_div (js_sub (Num W) (Math_floor (js_mul (Num (real iw)) ratio))) (Num 2)) \<and>
            js_lt a (js_add (js_div (js_sub (Num W) (Math_floor (js_mul (Num (real iw)) ratio)))
                                    (Num 2))
                            (Math_floor (js_mul (Num (real iw)) ratio))) \<and>
            js_ge b (js_div (js_sub (Num H) (Math_floor (js_mul (Num (real ih)) ratio))) (Num 2)) \<and>
            js_lt b (js_add (js_div (js_sub (Num H) (Math_floor (js_mul (Num (real ih)) ratio)))
                                    (Num 2))
                            (Math_floor (js_mul (Num (real ih)) ratio))))"
  using assms(1)
proof
  assume "iw = 0"
  from resized_zero_width[OF this assms(2,3), of ih]
  show ?thesis unfolding ratio_def using not_inside_empty not_inside_NaN by metis
next
  assume "ih = 0"
  from resized_zero_height[OF this assms(2,3), of iw]
  show ?thesis unfolding ratio_def using not_inside_empty not_inside_NaN by metis
qed

lemma shape_simps:
  "inputShape modelConfig ! 0 = 1" "inputShape modelConfig ! 1 = 3"
  "inputShape modelConfig ! 2 = 640" "inputShape modelConfig ! 3 = 640"
  by (simp_all add: modelConfig_def)

lemma preprocess_all_padding:
  assumes "image_width imageData = 0 \<or> image_height imageData = 0"
  shows "preprocess imageData = Inr (replicate (1 * 3 * 640 * 640) (Num 0))"
proof -
  have pos: "0 < real (640::nat)" by simp
  show ?thesis
    unfolding preprocess_def Let_def shape_simps
    apply (simp only: sum.inject)
    apply (rule fold_fixed)
    apply (rule fold_fixed)
    apply (rule preprocess_pixel_outside)
    apply (rule never_inside[OF assms pos pos])
    done
qed

text \<open>
  C5, as the claim states it, fails: on the frame of width 0 and height 0 the method
  does not reject. It resolves with a buffer, the one that holds 0 everywhere.
\<close>

theorem preprocess_zero_frame_counterexample:
  "preprocess \<lparr> image_data = [], image_width = 0, image_height = 0 \<rparr> =
     Inr (replicate (1 * 3 * 640 * 640) (Num 0))"
  by (rule preprocess_all_padding) simp

text \<open>
  C5 (amended): for every frame whose width or height is 0, \<open>preprocess\<close> does not
  fail; it resolves with the buffer of \<open>1 * 3 * 640 * 640\<close> zeros, every target pixel
  being padding.
\<close>

theorem preprocess_zero_frame:
  assumes "image_width imageData = 0 \<or> image_height imageData = 0"
  shows "preprocess imageData = Inr (replicate (1 * 3 * 640 * 640) (Num 0))"
  using assms by (rule preprocess_all_padding)

theorem preprocess_zero_frame_witness:
  "preprocess \<lparr> image_data = [], image_width = 0, image_height = 480 \<rparr> =
     Inr (replicate (1 * 3 * 640 * 640) (Num 0))"
  using preprocess_zero_frame[of "\<lparr> image_data = [], image_width = 0, image_height = 480 \<rparr>"]
  by simp

section \<open>Decoding one row\<close>


lemma classNames_0: "js_index (classNames modelConfig) 0 = Some ''person''"
  by (simp add: js_index_def modelConfig_def)

lemma classNames_1: "js_index (classNames modelConfig) (Suc 0) = Some ''bicycle''"
  by (simp add: js_index_def modelConfig_def)

lemma nms_nil: "nonMaxSuppression [] thr = ([], [])"
  by (simp add: nonMaxSuppression_def array_sort_def Let_def)

lemma nms_single: "nonMaxSuppression [d] thr = ([d], [d])"
  by (simp add: nonMaxSuppression_def array_sort_def nms_outer_def Let_def)

lemma js_lt_asym: "js_lt a b \<Longrightarrow> \<not> js_lt b a"
  by (cases a; cases b; simp)

text \<open>The body of the row loop, with the two tests of the source side by side.\<close>

lemma postprocess_row_eq:
  "postprocess_row cols ps d iw ih thr i results =
   (if js_gt (typed_at ps (i * d + 4)) thr \<and>
       js_gt (js_mul (typed_at ps (i * d + 4)) (fst (maxClass ps (i * d) d))) thr
    then results @
      [\<lparr> box = (js_sub (js_mul (js_mul (typed_at ps (i * d)) (Num 640)) (js_div iw (Num 640)))
                      (js_div (js_mul (js_mul (typed_at ps (i * d + 2)) (Num 640))
                                      (js_div iw (Num 640))) (Num 2)),
                js_sub (js_mul (js_mul (typed_at ps (i * d + 1)) (Num 640)) (js_div ih (Num 640)))
                      (js_div (js_mul (js_mul (typed_at ps (i * d + 3)) (Num 640))
                                      (js_div ih (Num 640))) (Num 2)),
                js_mul (js_mul (typed_at ps (i * d + 2)) (Num 640)) (js_div iw (Num 640)),
                js_mul (js_mul (typed_at ps (i * d + 3)) (Num 640)) (js_div ih (Num 640))),
          label = js_index (classNames modelConfig) (snd (maxClass ps (i * d) d)),
          confidence = js_mul (typed_at ps (i * d + 4)) (fst (maxClass ps (i * d) d)),
          color = js_index cols (snd (maxClass ps (i * d) d)) \<rparr>]
    else results)"
  by (simp add: postprocess_row_def Let_def shape_simps split: prod.splits)

text \<open>A raw output of one row: the result is what the row loop leaves.\<close>

lemma postprocess_one_row:
  "postprocess cols [\<lparr> tensor_data = ps, tensor_dims = [b, Suc 0, d] \<rparr>] iw ih (Some thr) =
     Inr (postprocess_row cols ps d iw ih thr 0 [])"
proof -
  have "\<exists>r. postprocess_row cols ps d iw ih thr 0 [] = [] \<or>
             postprocess_row cols ps d iw ih thr 0 [] = [r]"
    by (auto simp: postprocess_row_def Let_def split: prod.splits)
  then show ?thesis
    by (auto simp: postprocess_def postprocess_results_def js_index_def Let_def
                   nms_single nms_nil)
qed

text \<open>
  With the rounded operations: a box value times the model dimension times the scale is
  the value times the image dimension when none of the three results is rounded.
\<close>

lemma rescale_exact:
  assumes "binary64 (raw * 640)" "binary64 (img / 640)" "binary64 (raw * img)"
  shows "mul64 (mul64 (Num raw) (Num 640)) (div64 (Num img) (Num 640)) = Num (raw * img)"
proof -
  have 1: "mul64 (Num raw) (Num 640) = Num (raw * 640)" using assms(1) by (rule mul64_exact)
  have 2: "div64 (Num img) (Num 640) = Num (img / 640)"
    using assms(2) by (intro div64_exact) simp_all
  have "raw * 640 * (img / 640) = raw * img" by simp
  with assms(3) have "binary64 (raw * 640 * (img / 640))" by simp
  from mul64_exact[OF this] show ?thesis unfolding 1 2 by simp
qed

text \<open>
  On a frame of width 641 the scale \<open>641 / 640\<close> is rounded down, and with it the
  width of a box of raw width 0.75.
\<close>

lemma scale_641: "div64 (Num 641) (Num 640) = Num (4510636501788262 / 2 ^ 52)"
proof -
  have "dbl (641 / 640) = Num (of_int 4510636501788262 * 2 powi (0 - 52))"
    by (rule dbl_normal) (simp_all add: rhe_def power_int_minus)
  then show ?thesis by (simp add: div64_def power_int_minus field_simps)
qed

lemma width_641:
  "mul64 (Num 480) (Num (4510636501788262 / 2 ^ 52)) = Num (8457443440852991 / 2 ^ 44)"
proof -
  have "dbl (480 * (4510636501788262 / 2 ^ 52)) =
          Num (of_int 8457443440852991 * 2 powi (8 - 52))"
    by (rule dbl_normal) (simp_all add: rhe_def power_int_minus)
  then show ?thesis by (simp add: mul64_def power_int_minus field_simps)
qed

lemma center_641:
  "mul64 (Num 320) (Num (4510636501788262 / 2 ^ 52)) = Num (641 / 2)"
proof -
  have "dbl (320 * (4510636501788262 / 2 ^ 52)) =
          Num (of_int 5638295627235328 * 2 powi (8 - 52))"
    by (rule dbl_normal) (simp_all add: rhe_def power_int_minus)
  then show ?thesis by (simp add: mul64_def power_int_minus field_simps)
qed

lemma decodeBox64_rounds:
  "decodeBox64 [Num (1 / 2), Num (1 / 2), Num (3 / 4), Num (1 / 2), Num 1, Num 1] 0
     (Num 641) (Num 640) =
   (Num (641 / 8 + 1 / 2 ^ 45), Num 160, Num (1923 / 4 - 1 / 2 ^ 44), Num 320)"
proof -
  have m: "mul64 (Num (1 / 2)) (Num 640) = Num 320" "mul64 (Num (3 / 4)) (Num 640) = Num 480"
    "mul64 (Num 320) (Num 1) = Num 320"
    using mul64_exact[of "1 / 2" 640] mul64_exact[of "3 / 4" 640] mul64_exact[of 320 1]
    by (simp_all add: binary64_numeral)
  have d: "div64 (Num 640) (Num 640) = Num 1" "div64 (Num 320) (Num 2) = Num 160"
    using div64_exact[of 640 640] div64_exact[of 2 320]
    by (simp_all add: binary64_numeral binary64_1)
  have hw: "div64 (Num (8457443440852991 / 2 ^ 44)) (Num 2) = Num (8457443440852991 / 2 ^ 45)"
    using div64_exact[of 2 "8457443440852991 / 2 ^ 44"]
      binary64_dyadic[of 8457443440852991 "- 45"]
    by (simp add: power_int_minus field_simps)
  have l: "sub64 (Num (641 / 2)) (Num (8457443440852991 / 2 ^ 45)) =
             Num (5638295627235330 / 2 ^ 46)"
    using sub64_exact[of "641 / 2" "8457443440852991 / 2 ^ 45"]
      binary64_dyadic[of 5638295627235330 "- 46"]
    by (simp add: power_int_minus field_simps)
  have t: "sub64 (Num 320) (Num 160) = Num 160"
    using sub64_exact[of 320 160] by (simp add: binary64_numeral)
  have "decodeBox64 [Num (1 / 2), Num (1 / 2), Num (3 / 4), Num (1 / 2), Num 1, Num 1] 0
     (Num 641) (Num 640) =
   (Num (5638295627235330 / 2 ^ 46), Num 160, Num (8457443440852991 / 2 ^ 44), Num 320)"
    unfolding decodeBox64_def Let_def shape_simps
    by (simp add: typed_at_def scale_641 width_641 center_641 m d hw l t del: power_numeral)
  then show ?thesis by simp
qed

text \<open>
  C1, as the claim states it, fails. On a frame of 1280 by 720 the row with center
  (320, 240) and size (64, 32) would be decoded to the center (640, 270) and the size
  (128, 36) by the ratio of the claim; the method multiplies each value by the model
  dimension first and returns the size (81920, 23040) around the center
  (409600, 172800). And the products are rounded: on a frame of 641 by 640 the row of
  raw width 0.75 gets the width \<open>480.75 - 2 ^ - 44\<close>, not \<open>0.75 * 641\<close>.
\<close>

theorem postprocess_rescale_counterexample:
  "postprocess (replicate 80 ''#000000'')
     [\<lparr> tensor_data = [Num 320, Num 240, Num 64, Num 32, Num 1, Num (3 / 4)],
         tensor_dims = [1, 1, 6] \<rparr>]
     (Num 1280) (Num 720) (Some (Num (45 / 100))) =
   Inr [\<lparr> box = (Num 368640, Num 161280, Num 81920, Num 23040), label = Some ''person'',
          confidence = Num (3 / 4), color = Some ''#000000'' \<rparr>] \<and>
   (Num 368640, Num 161280, Num 81920, Num 23040) \<noteq>
   (Num (320 * 1280 / 640 - (64 * 1280 / 640) / 2),
    Num (240 * 720 / 640 - (32 * 720 / 640) / 2),
    Num (64 * 1280 / 640), Num (32 * 720 / 640)) \<and>
   decodeBox64 [Num 320, Num 240, Num 64, Num 32, Num 1, Num (3 / 4)] 0 (Num 1280) (Num 720) =
   (Num 368640, Num 161280, Num 81920, Num 23040) \<and>
   decodeBox64 [Num (1 / 2), Num (1 / 2), Num (3 / 4), Num (1 / 2), Num 1, Num 1] 0
     (Num 641) (Num 640) =
   (Num (641 / 8 + 1 / 2 ^ 45), Num 160, Num (1923 / 4 - 1 / 2 ^ 44), Num 320) \<and>
   Num (1923 / 4 - 1 / 2 ^ 44) \<noteq> Num (3 / 4 * 641)"
proof -
  have a: "postprocess (replicate 80 ''#000000'')
     [\<lparr> tensor_data = [Num 320, Num 240, Num 64, Num 32, Num 1, Num (3 / 4)],
         tensor_dims = [1, 1, 6] \<rparr>]
     (Num 1280) (Num 720) (Some (Num (45 / 100))) =
   Inr [\<lparr> box = (Num 368640, Num 161280, Num 81920, Num 23040), label = Some ''person'',
          confidence = Num (3 / 4), color = Some ''#000000'' \<rparr>]"
    using postprocess_one_row[of _ _ 1 6]
    by (simp add: postprocess_row_eq maxClass_def maxClass_step_def typed_at_def classNames_0
          js_gt_def js_sub_def js_index_def[of "replicate _ _"])
  have b: "(Num 368640, Num 161280, Num 81920, Num 23040) \<noteq>
   (Num (320 * 1280 / 640 - (64 * 1280 / 640) / 2),
    Num (240 * 720 / 640 - (32 * 720 / 640) / 2),
    Num (64 * 1280 / 640), Num (32 * 720 / 640))"
    by simp
  have e: "dbl 2 = Num 2" "dbl 204800 = Num 204800" "dbl 153600 = Num 153600"
    "dbl 40960 = Num 40960" "dbl 20480 = Num 20480" "dbl 409600 = Num 409600"
    "dbl 172800 = Num 172800" "dbl 81920 = Num 81920" "dbl 23040 = Num 23040"
    "dbl 11520 = Num 11520" "dbl 368640 = Num 368640" "dbl 161280 = Num 161280"
    by (simp_all add: dbl_exact binary64_numeral)
  have n98: "dbl (9 / 8) = Num (9 / 8)"
    using binary64_dyadic[of 9 "- 3"] by (intro dbl_exact) (simp add: power_int_minus)
  have c: "decodeBox64 [Num 320, Num 240, Num 64, Num 32, Num 1, Num (3 / 4)] 0
             (Num 1280) (Num 720) =
           (Num 368640, Num 161280, Num 81920, Num 23040)"
    unfolding decodeBox64_def Let_def shape_simps
    by (simp add: typed_at_def mul64_def div64_def sub64_def js_sub_Num e n98)
  have d: "Num (1923 / 4 - 1 / 2 ^ 44) \<noteq> Num (3 / 4 * 641)" by simp
  show ?thesis
    by (intro conjI) (fact a, fact b, fact c, fact decodeBox64_rounds, fact d)
qed

text \<open>
  C1 (amended): for every row that \<open>postprocess\<close> decodes into a Detection, with finite
  box values in the row and finite image dimensions, each box value is multiplied by
  the model dimension 640 and then by \<open>imageDimension / 640\<close>. When none of these
  results is rounded (the products by 640, the two scales, the products by the scales,
  the two halves and the two differences are binary64 numbers), that is the value times
  the image dimension: the Detection has width \<open>rawW * imgWidth\<close>, height
  \<open>rawH * imgHeight\<close>, and its left and top are the center
  \<open>(rawX * imgWidth, rawY * imgHeight)\<close> minus half the width and half the height.
\<close>

theorem decodeBox64_rescale:
  assumes "typed_at predictions baseOffset = Num rawX"
    and "typed_at predictions (baseOffset + 1) = Num rawY"
    and "typed_at predictions (baseOffset + 2) = Num rawW"
    and "typed_at predictions (baseOffset + 3) = Num rawH"
    and "binary64 (imgWidth / 640)" "binary64 (imgHeight / 640)"
    and "binary64 (rawX * 640)" "binary64 (rawX * imgWidth)"
    and "binary64 (rawY * 640)" "binary64 (rawY * imgHeight)"
    and "binary64 (rawW * 640)" "binary64 (rawW * imgWidth)"
    and "binary64 (rawH * 640)" "binary64 (rawH * imgHeight)"
    and "binary64 (rawW * imgWidth / 2)" "binary64 (rawH * imgHeight / 2)"
    and "binary64 (rawX * imgWidth - rawW * imgWidth / 2)"
    and "binary64 (rawY * imgHeight - rawH * imgHeight / 2)"
  shows "decodeBox64 predictions baseOffset (Num imgWidth) (Num imgHeight) =
           (Num (rawX * imgWidth - rawW * imgWidth / 2),
            Num (rawY * imgHeight - rawH * imgHeight / 2),
            Num (rawW * imgWidth),
            Num (rawH * imgHeight))"
proof -
  have x: "mul64 (mul64 (Num rawX) (Num 640)) (div64 (Num imgWidth) (Num 640)) =
             Num (rawX * imgWidth)"
    using assms(7,5,8) by (rule rescale_exact)
  have y: "mul64 (mul64 (Num rawY) (Num 640)) (div64 (Num imgHeight) (Num 640)) =
             Num (rawY * imgHeight)"
    using assms(9,6,10) by (rule rescale_exact)
  have w: "mul64 (mul64 (Num rawW) (Num 640)) (div64 (Num imgWidth) (Num 640)) =
             Num (rawW * imgWidth)"
    using assms(11,5,12) by (rule rescale_exact)
  have h: "mul64 (mul64 (Num rawH) (Num 640)) (div64 (Num imgHeight) (Num 640)) =
             Num (rawH * imgHeight)"
    using assms(13,6,14) by (rule rescale_exact)
  have hw: "div64 (Num (rawW * imgWidth)) (Num 2) = Num (rawW * imgWidth / 2)"
    using assms(15) by (intro div64_exact) simp_all
  have hh: "div64 (Num (rawH * imgHeight)) (Num 2) = Num (rawH * imgHeight / 2)"
    using assms(16) by (intro div64_exact) simp_all
  have l: "sub64 (Num (rawX * imgWidth)) (Num (rawW * imgWidth / 2)) =
             Num (rawX * imgWidth - rawW * imgWidth / 2)"
    using assms(17) by (rule sub64_exact)
  have t: "sub64 (Num (rawY * imgHeight)) (Num (rawH * imgHeight / 2)) =
             Num (rawY * imgHeight - rawH * imgHeight / 2)"
    using assms(18) by (rule sub64_exact)
  show ?thesis
    unfolding decodeBox64_def Let_def shape_simps assms(1-4)
    by (simp only: of_nat_numeral x y w h hw hh l t)
qed

theorem decodeBox64_rescale_witness:
  "binary64 (1280 / 640) \<and> binary64 (720 / 640) \<and>
   decodeBox64 [Num (1 / 2), Num (1 / 4), Num (1 / 8), Num (1 / 16), Num 1, Num (3 / 4)] 0
     (Num 1280) (Num 720) =
   (Num 560, Num (315 / 2), Num 160, Num 45)"
proof -
  have r: "typed_at [Num (1 / 2), Num (1 / 4), Num (1 / 8), Num (1 / 16), Num 1, Num (3 / 4)]
             0 = Num (1 / 2)"
          "typed_at [Num (1 / 2), Num (1 / 4), Num (1 / 8), Num (1 / 16), Num 1, Num (3 / 4)]
             (0 + 1) = Num (1 / 4)"
          "typed_at [Num (1 / 2), Num (1 / 4), Num (1 / 8), Num (1 / 16), Num 1, Num (3 / 4)]
             (0 + 2) = Num (1 / 8)"
          "typed_at [Num (1 / 2), Num (1 / 4), Num (1 / 8), Num (1 / 16), Num 1, Num (3 / 4)]
             (0 + 3) = Num (1 / 16)"
    by (simp_all add: typed_at_def)
  have n98: "binary64 (720 / 640)"
    using binary64_dyadic[of 9 "- 3"] by (simp add: power_int_minus)
  have n2: "binary64 (1280 / 640)" by (simp add: binary64_numeral)
  have n452: "binary64 (45 / 2)" using binary64_half[of 45] by simp
  have n3152: "binary64 (315 / 2)" using binary64_half[of 315] by simp
  from decodeBox64_rescale[OF r n2 n98] n2 n98 show ?thesis
    by (simp add: binary64_numeral n452 n3152)
qed

section \<open>One row of objectness 0.9 and class score 0.9\<close>

lemma upt_5_Suc: "[5 ..< 5 + Suc m] = [5 ..< 5 + m] @ [5 + m]"
  by (metis add_Suc_right le_add1 upt_Suc_append)

text \<open>
  The scan over the first \<open>m\<close> class scores: before it reaches the score 0.9 at
  index \<open>k\<close> its maximum is below 0.9, from then on it holds 0.9 and \<open>k\<close>.
\<close>

lemma maxClass_scan:
  assumes "k < length cs" "cs ! k = Num (9 / 10)"
    and "\<forall>j<length cs. j \<noteq> k \<longrightarrow> js_lt (cs ! j) (Num (9 / 10))"
    and "m \<le> length cs"
  shows "\<exists>s i. maxClass ([x, y, w, h, ob] @ cs) 0 (5 + m) = (s, i) \<and>
          (if k < m then s = Num (9 / 10) \<and> i = k else js_lt s (Num (9 / 10)))"
  using assms(4)
proof (induction m)
  case 0
  then show ?case by (simp add: maxClass_def)
next
  case (Suc m)
  then have m: "m < length cs" by simp
  from Suc obtain s i where
    f: "maxClass ([x, y, w, h, ob] @ cs) 0 (5 + m) = (s, i)"
    and inv: "if k < m then s = Num (9 / 10) \<and> i = k else js_lt s (Num (9 / 10))"
    by auto
  have sc: "typed_at ([x, y, w, h, ob] @ cs) (0 + (5 + m)) = cs ! m"
    using m by (simp add: typed_at_def nth_append)
  have step: "maxClass ([x, y, w, h, ob] @ cs) 0 (5 + Suc m) =
     (if js_gt (cs ! m) s then (cs ! m, m) else (s, i))"
    using f unfolding maxClass_def upt_5_Suc fold_append o_apply
    by (simp only: fold_simps maxClass_step_def sc prod.case Let_def id_apply) simp
  consider "m < k" | "m = k" | "k < m" by linarith
  then show ?case
  proof cases
    case 1
    then have "js_lt (cs ! m) (Num (9 / 10))" using assms(3) m by simp
    with 1 inv show ?thesis unfolding step by auto
  next
    case 2
    with inv assms(2) show ?thesis unfolding step by (auto simp: js_gt_def)
  next
    case 3
    then have "js_lt (cs ! m) (Num (9 / 10))" using assms(3) m by simp
    then have "\<not> js_gt (cs ! m) (Num (9 / 10))" by (simp add: js_gt_def js_lt_asym)
    with 3 inv show ?thesis unfolding step by auto
  qed
qed

text \<open>
  C7: a raw output of one row with objectness 0.9, the class score 0.9 at index \<open>k\<close>
  and every other class score below 0.9, postprocessed at the threshold 0.45, gives
  exactly one Detection; its confidence is 0.81 and its label is the class name at
  index \<open>k\<close>. The box values and the image dimensions are arbitrary.
\<close>

theorem postprocess_single_row:
  assumes "k < length cs" "cs ! k = Num (9 / 10)"
    and "\<forall>j<length cs. j \<noteq> k \<longrightarrow> js_lt (cs ! j) (Num (9 / 10))"
  shows "\<exists>d. postprocess cols
                [\<lparr> tensor_data = [x, y, w, h, Num (9 / 10)] @ cs,
                    tensor_dims = [1, 1, 5 + length cs] \<rparr>]
                imgWidth imgHeight (Some (Num (45 / 100))) = Inr [d] \<and>
             confidence d = Num (81 / 100) \<and>
             label d = js_index (classNames modelConfig) k"
proof -
  from maxClass_scan[OF assms order_refl, of x y w h "Num (9 / 10)"]
  have mc: "maxClass ([x, y, w, h, Num (9 / 10)] @ cs) 0 (5 + length cs) = (Num (9 / 10), k)"
    using assms(1) by auto
  have ob: "typed_at ([x, y, w, h, Num (9 / 10)] @ cs) 4 = Num (9 / 10)"
    by (simp add: typed_at_def)
  show ?thesis
    using postprocess_row_eq[of cols "[x, y, w, h, Num (9 / 10)] @ cs" "5 + length cs"
            imgWidth imgHeight "Num (45 / 100)" 0 "[]"]
          postprocess_one_row[of cols "[x, y, w, h, Num (9 / 10)] @ cs" 1 "5 + length cs"
            imgWidth imgHeight "Num (45 / 100)"]
    by (auto simp: mc ob js_gt_Num simp del: append.simps)
qed

theorem postprocess_single_row_witness:
  "\<exists>d. postprocess (replicate 80 ''#000000'')
          [\<lparr> tensor_data = [Num 320, Num 240, Num 64, Num 32, Num (9 / 10)] @
                             [Num (1 / 10), Num (9 / 10), Num 0],
              tensor_dims = [1, 1, 5 + length [Num (1 / 10), Num (9 / 10), Num 0]] \<rparr>]
          (Num 640) (Num 480) (Some (Num (45 / 100))) = Inr [d] \<and>
       confidence d = Num (81 / 100) \<and> label d = Some ''bicycle''"
proof -
  have h: "\<forall>j<length [Num (1 / 10), Num (9 / 10), Num 0].
             j \<noteq> 1 \<longrightarrow> js_lt ([Num (1 / 10), Num (9 / 10), Num 0] ! j) (Num (9 / 10))"
    by (auto simp: less_Suc_eq numeral_3_eq_3)
  from postprocess_single_row[where k = 1 and cs = "[Num (1 / 10), Num (9 / 10), Num 0]"
         and cols = "replicate 80 ''#000000''" and x = "Num 320" and y = "Num 240"
         and w = "Num 64" and h = "Num 32" and imgWidth = "Num 640" and imgHeight = "Num 480",
         OF _ _ h]
  show ?thesis by (simp add: classNames_1)
qed

section \<open>The suppression loops\<close>


lemma nms_inner_eq:
  "nms_inner bs thr i j sel = (if \<not> sel ! j \<and> discards bs thr i j then sel[j := True] else sel)"
  by (simp add: nms_inner_def discards_def Let_def)

text \<open>
  The inner loop over \<open>[a ..< b]\<close> marks exactly the unmarked candidates of that range
  that the current candidate discards.
\<close>

lemma inner_loop:
  assumes "length sel = n" "b \<le> n"
  shows "length (fold (nms_inner bs thr i) [a ..< b] sel) = n \<and>
         (\<forall>j<n. fold (nms_inner bs thr i) [a ..< b] sel ! j =
                  (sel ! j \<or> (a \<le> j \<and> j < b \<and> discards bs thr i j)))"
  using assms(2)
proof (induction b)
  case 0
  then show ?case using assms(1) by simp
next
  case (Suc b)
  show ?case
  proof (cases "a \<le> b")
    case False
    then show ?thesis using assms(1) by auto
  next
    case True
    define sel' where "sel' = fold (nms_inner bs thr i) [a ..< b] sel"
    from Suc have len: "length sel' = n"
      and ih: "\<And>j. j < n \<Longrightarrow> sel' ! j = (sel ! j \<or> (a \<le> j \<and> j < b \<and> discards bs thr i j))"
      by (simp_all add: sel'_def)
    have step: "fold (nms_inner bs thr i) [a ..< Suc b] sel = nms_inner bs thr i b sel'"
      using True by (simp add: sel'_def)
    have b: "b < length sel'" using Suc.prems len by simp
    have l2: "length (nms_inner bs thr i b sel') = n"
      using len by (simp add: nms_inner_eq)
    have n2: "\<And>j. j < n \<Longrightarrow>
                nms_inner bs thr i b sel' ! j = (sel' ! j \<or> (j = b \<and> discards bs thr i b))"
      using len b by (auto simp: nms_inner_eq nth_list_update)
    show ?thesis
      unfolding step using l2 n2 ih True by (auto simp: less_Suc_eq)
  qed
qed

text \<open>
  The invariant of the outer loop after \<open>m\<close> rounds, with \<open>ks\<close> the indices of the
  candidates selected so far: a candidate is marked exactly when it is selected or
  discarded by a selected one before it, every candidate below \<open>m\<close> is marked, and no
  selected candidate discards a later selected one.
\<close>

lemma outer_loop:
  assumes "m \<le> length bs"
  shows "\<exists>ks sel. fold (nms_outer bs thr) [0 ..< m] ([], replicate (length bs) False) =
                     (map ((!) bs) ks, sel) \<and>
           length sel = length bs \<and> sorted_wrt (<) ks \<and> set ks \<subseteq> {..<m} \<and>
           (\<forall>j<length bs. sel ! j =
              (j \<in> set ks \<or> (\<exists>i\<in>set ks. i < j \<and> discards bs thr i j))) \<and>
           (\<forall>j<m. sel ! j) \<and>
           (\<forall>i\<in>set ks. \<forall>j\<in>set ks. i < j \<longrightarrow> \<not> discards bs thr i j)"
  using assms
proof (induction m)
  case 0
  show ?case by (rule exI[of _ "[]"]) simp
next
  case (Suc m)
  then have m: "m < length bs" by simp
  from Suc obtain ks sel where
    f: "fold (nms_outer bs thr) [0 ..< m] ([], replicate (length bs) False) =
          (map ((!) bs) ks, sel)"
    and len: "length sel = length bs"
    and srt: "sorted_wrt (<) ks"
    and sub: "set ks \<subseteq> {..<m}"
    and chr: "\<And>j. j < length bs \<Longrightarrow>
                sel ! j = (j \<in> set ks \<or> (\<exists>i\<in>set ks. i < j \<and> discards bs thr i j))"
    and dn: "\<And>j. j < m \<Longrightarrow> sel ! j"
    and sep: "\<And>i j. i \<in> set ks \<Longrightarrow> j \<in> set ks \<Longrightarrow> i < j \<Longrightarrow> \<not> discards bs thr i j"
    by (auto simp: subset_iff)
  have step: "fold (nms_outer bs thr) [0 ..< Suc m] ([], replicate (length bs) False) =
                nms_outer bs thr m (map ((!) bs) ks, sel)"
    by (simp add: f)
  show ?case
  proof (cases "sel ! m")
    case True
    then have "nms_outer bs thr m (map ((!) bs) ks, sel) = (map ((!) bs) ks, sel)"
      by (simp add: nms_outer_def)
    moreover have "\<forall>j<Suc m. sel ! j" using dn True by (auto simp: less_Suc_eq)
    moreover have "set ks \<subseteq> {..<Suc m}" using sub by auto
    ultimately show ?thesis
      unfolding step using len srt chr sep by blast
  next
    case False
    define sel' where
      "sel' = fold (nms_inner bs thr m) [m + 1 ..< length bs] (sel[m := True])"
    have res: "nms_outer bs thr m (map ((!) bs) ks, sel) = (map ((!) bs) (ks @ [m]), sel')"
      using False by (simp add: nms_outer_def sel'_def)
    from inner_loop[of "sel[m := True]" "length bs" "length bs" bs thr m "m + 1"] len
    have len': "length sel' = length bs"
      and ch: "\<And>j. j < length bs \<Longrightarrow>
                 sel' ! j = ((sel[m := True]) ! j \<or> (m + 1 \<le> j \<and> discards bs thr m j))"
      by (simp_all add: sel'_def)
    have lt: "\<And>k. k \<in> set ks \<Longrightarrow> k < m" using sub by auto
    have nodisc: "\<And>i. i \<in> set ks \<Longrightarrow> \<not> discards bs thr i m"
      using False chr[OF m] lt by blast
    have 1: "sorted_wrt (<) (ks @ [m])" using srt lt by (simp add: sorted_wrt_append)
    have 2: "set (ks @ [m]) \<subseteq> {..<Suc m}" using lt by (auto simp: less_Suc_eq)
    have 3: "\<forall>j<length bs. sel' ! j =
               (j \<in> set (ks @ [m]) \<or> (\<exists>i\<in>set (ks @ [m]). i < j \<and> discards bs thr i j))"
    proof (intro allI impI)
      fix j assume j: "j < length bs"
      from m len have jl: "m < length sel" by simp
      have "sel' ! j = ((j = m \<or> sel ! j) \<or> (m < j \<and> discards bs thr m j))"
        using ch[OF j] jl by (auto simp: nth_list_update)
      also have "\<dots> = (j \<in> set (ks @ [m]) \<or> (\<exists>i\<in>set (ks @ [m]). i < j \<and> discards bs thr i j))"
        using chr[OF j] by auto
      finally show "sel' ! j =
               (j \<in> set (ks @ [m]) \<or> (\<exists>i\<in>set (ks @ [m]). i < j \<and> discards bs thr i j))" .
    qed
    have 4: "\<forall>j<Suc m. sel' ! j"
    proof (intro allI impI)
      fix j assume "j < Suc m"
      then have j: "j < length bs" using m by simp
      from m len have jl: "m < length sel" by simp
      from \<open>j < Suc m\<close> have "j = m \<or> sel ! j" using dn by (auto simp: less_Suc_eq)
      then show "sel' ! j" using ch[OF j] jl by (auto simp: nth_list_update)
    qed
    have 5: "\<forall>i\<in>set (ks @ [m]). \<forall>j\<in>set (ks @ [m]). i < j \<longrightarrow> \<not> discards bs thr i j"
      using sep nodisc lt by (auto dest: lt)
    show ?thesis
      unfolding step res using len' 1 2 3 4 5 by blast
  qed
qed

lemma nms_loop:
  "\<exists>ks. fst (nonMaxSuppression boxes thr) = map ((!) (array_sort boxes)) ks \<and>
         sorted_wrt (<) ks \<and> set ks \<subseteq> {..<length (array_sort boxes)} \<and>
         (\<forall>j<length (array_sort boxes).
            (j \<notin> set ks) = (\<exists>i\<in>set ks. i < j \<and> discards (array_sort boxes) thr i j))"
proof -
  from outer_loop[of "length (array_sort boxes)" "array_sort boxes" thr]
  obtain ks sel where
    f: "fold (nms_outer (array_sort boxes) thr) [0 ..< length (array_sort boxes)]
          ([], replicate (length (array_sort boxes)) False) =
        (map ((!) (array_sort boxes)) ks, sel)"
    and srt: "sorted_wrt (<) ks"
    and sub: "set ks \<subseteq> {..<length (array_sort boxes)}"
    and chr: "\<And>j. j < length (array_sort boxes) \<Longrightarrow>
                sel ! j = (j \<in> set ks \<or> (\<exists>i\<in>set ks. i < j \<and> discards (array_sort boxes) thr i j))"
    and dn: "\<And>j. j < length (array_sort boxes) \<Longrightarrow> sel ! j"
    and sep: "\<And>i j. i \<in> set ks \<Longrightarrow> j \<in> set ks \<Longrightarrow> i < j \<Longrightarrow>
                \<not> discards (array_sort boxes) thr i j"
    by auto
  have "fst (nonMaxSuppression boxes thr) = map ((!) (array_sort boxes)) ks"
    by (simp add: nonMaxSuppression_def Let_def f)
  moreover have "\<forall>j<length (array_sort boxes).
            (j \<notin> set ks) = (\<exists>i\<in>set ks. i < j \<and> discards (array_sort boxes) thr i j)"
    using chr dn sep by blast
  ultimately show ?thesis using srt sub by blast
qed

section \<open>The sort by confidence\<close>

lemma mset_insert_sorted: "mset (insert_sorted x ys) = add_mset x (mset ys)"
  by (induction ys) simp_all

lemma mset_array_sort: "mset (array_sort xs) = mset xs"
  by (induction xs) (simp_all add: array_sort_def mset_insert_sorted)

lemma length_array_sort: "length (array_sort xs) = length xs"
  using mset_array_sort[of xs] by (metis size_mset)

lemma set_array_sort: "set (array_sort xs) = set xs"
  using mset_array_sort[of xs] by (metis set_mset_mset)

lemma compare_positive:
  "a \<noteq> NaN \<Longrightarrow> b \<noteq> NaN \<Longrightarrow> js_gt (js_sub b a) (Num 0) = js_lt a b"
  by (cases a; cases b; simp add: js_gt_def js_sub_def)

lemma js_ge_trans:
  "a \<noteq> NaN \<Longrightarrow> b \<noteq> NaN \<Longrightarrow> c \<noteq> NaN \<Longrightarrow>
   \<not> js_lt a b \<Longrightarrow> \<not> js_lt b c \<Longrightarrow> \<not> js_lt a c"
  by (cases a; cases b; cases c; simp)

lemma insert_sorted_eq:
  assumes "confidence x \<noteq> NaN" "confidence y \<noteq> NaN"
  shows "insert_sorted x (y # ys) =
           (if js_lt (confidence x) (confidence y) then y # insert_sorted x ys else x # y # ys)"
  using assms by (simp add: compareFn_def compare_positive)

lemma set_insert_sorted: "set (insert_sorted x ys) = insert x (set ys)"
  using mset_insert_sorted[of x ys] by (metis set_mset_add_mset_insert set_mset_mset)

lemma sorted_insert_sorted:
  assumes "confidence x \<noteq> NaN" "\<forall>y\<in>set ys. confidence y \<noteq> NaN"
    and "sorted_wrt (\<lambda>a b. \<not> js_lt (confidence a) (confidence b)) ys"
  shows "sorted_wrt (\<lambda>a b. \<not> js_lt (confidence a) (confidence b)) (insert_sorted x ys)"
  using assms(2,3)
proof (induction ys)
  case Nil
  then show ?case by simp
next
  case (Cons y ys)
  have eq: "insert_sorted x (y # ys) =
           (if js_lt (confidence x) (confidence y) then y # insert_sorted x ys else x # y # ys)"
    using insert_sorted_eq[of x y ys] assms(1) Cons.prems(1) by simp
  have ih: "sorted_wrt (\<lambda>a b. \<not> js_lt (confidence a) (confidence b)) (insert_sorted x ys)"
    using Cons by simp
  show ?case
  proof (cases "js_lt (confidence x) (confidence y)")
    case True
    then have "\<not> js_lt (confidence y) (confidence x)" by (rule js_lt_asym)
    with True ih Cons.prems(2) show ?thesis
      unfolding eq by (simp add: set_insert_sorted)
  next
    case False
    have "\<forall>z\<in>set ys. \<not> js_lt (confidence x) (confidence z)"
    proof
      fix z assume z: "z \<in> set ys"
      with Cons.prems have "\<not> js_lt (confidence y) (confidence z)" by simp
      with False show "\<not> js_lt (confidence x) (confidence z)"
        using js_ge_trans[of "confidence x" "confidence y" "confidence z"] assms(1) Cons.prems(1) z
        by simp
    qed
    with False Cons.prems(2) show ?thesis
      unfolding eq by simp
  qed
qed

lemma sorted_array_sort:
  assumes "\<forall>d\<in>set xs. confidence d \<noteq> NaN"
  shows "sorted_wrt (\<lambda>a b. \<not> js_lt (confidence a) (confidence b)) (array_sort xs)"
  using assms
proof (induction xs)
  case Nil
  then show ?case by (simp add: array_sort_def)
next
  case (Cons x xs)
  then have "sorted_wrt (\<lambda>a b. \<not> js_lt (confidence a) (confidence b)) (array_sort xs)" by simp
  moreover have "\<forall>y\<in>set (array_sort xs). confidence y \<noteq> NaN"
    using Cons.prems by (simp add: set_array_sort)
  ultimately have "sorted_wrt (\<lambda>a b. \<not> js_lt (confidence a) (confidence b))
                     (insert_sorted x (array_sort xs))"
    using Cons.prems by (intro sorted_insert_sorted) simp_all
  then show ?case by (simp add: array_sort_def)
qed

lemma insert_sorted_head:
  assumes "\<forall>y\<in>set ys. \<not> js_gt (compareFn x y) (Num 0)"
  shows "insert_sorted x ys = x # ys"
  using assms by (cases ys) simp_all

lemma array_sort_sorted:
  assumes "\<forall>d\<in>set xs. confidence d \<noteq> NaN"
    and "sorted_wrt (\<lambda>a b. \<not> js_lt (confidence a) (confidence b)) xs"
  shows "array_sort xs = xs"
  using assms
proof (induction xs)
  case Nil
  then show ?case by (simp add: array_sort_def)
next
  case (Cons x xs)
  then have ih: "array_sort xs = xs" by simp
  have "\<forall>y\<in>set xs. \<not> js_gt (compareFn x y) (Num 0)"
    using Cons.prems by (simp add: compareFn_def compare_positive)
  then have "insert_sorted x xs = x # xs" by (rule insert_sorted_head)
  with ih show ?case by (simp add: array_sort_def)
qed

text \<open>
  C10: \<open>nonMaxSuppression\<close> sorts the caller's array in place. After the call the
  array (the second component of the result) holds the same candidates, sorted by
  descending confidence, and it is the array that was passed in only if that one was
  sorted by descending confidence already. Stated for candidates whose confidence is
  not \<open>NaN\<close>, as every candidate of \<open>postprocess\<close> is.
\<close>

theorem nonMaxSuppression_sorts_in_place:
  assumes "\<forall>d\<in>set boxes. confidence d \<noteq> NaN"
  shows "mset (snd (nonMaxSuppression boxes thr)) = mset boxes \<and>
         sorted_wrt (\<lambda>a b. \<not> js_lt (confidence a) (confidence b))
           (snd (nonMaxSuppression boxes thr)) \<and>
         (snd (nonMaxSuppression boxes thr) = boxes) =
           sorted_wrt (\<lambda>a b. \<not> js_lt (confidence a) (confidence b)) boxes"
proof -
  have s: "snd (nonMaxSuppression boxes thr) = array_sort boxes"
    by (simp add: nonMaxSuppression_def Let_def)
  show ?thesis
    unfolding s
    using mset_array_sort[of boxes] sorted_array_sort[OF assms] array_sort_sorted[OF assms]
    by auto
qed

theorem nonMaxSuppression_sorts_in_place_witness:
  "mset (snd (nonMaxSuppression [\<lparr> box = (Num 0, Num 0, Num 160, Num 80), label = Some ''person'',
        confidence = Num (3 / 4), color = Some ''#000000'' \<rparr>,
      \<lparr> box = (Num 0, Num 0, Num 160, Num 160), label = Some ''person'',
        confidence = Num (7 / 8), color = Some ''#000000'' \<rparr>] (Num (45 / 100)))) =
   mset [\<lparr> box = (Num 0, Num 0, Num 160, Num 80), label = Some ''person'',
        confidence = Num (3 / 4), color = Some ''#000000'' \<rparr>,
      \<lparr> box = (Num 0, Num 0, Num 160, Num 160), label = Some ''person'',
        confidence = Num (7 / 8), color = Some ''#000000'' \<rparr>] \<and>
   sorted_wrt (\<lambda>a b. \<not> js_lt (confidence a) (confidence b))
     (snd (nonMaxSuppression [\<lparr> box = (Num 0, Num 0, Num 160, Num 80), label = Some ''person'',
        confidence = Num (3 / 4), color = Some ''#000000'' \<rparr>,
      \<lparr> box = (Num 0, Num 0, Num 160, Num 160), label = Some ''person'',
        confidence = Num (7 / 8), color = Some ''#000000'' \<rparr>] (Num (45 / 100)))) \<and>
   snd (nonMaxSuppression [\<lparr> box = (Num 0, Num 0, Num 160, Num 80), label = Some ''person'',
        confidence = Num (3 / 4), color = Some ''#000000'' \<rparr>,
      \<lparr> box = (Num 0, Num 0, Num 160, Num 160), label = Some ''person'',
        confidence = Num (7 / 8), color = Some ''#000000'' \<rparr>] (Num (45 / 100))) \<noteq>
   [\<lparr> box = (Num 0, Num 0, Num 160, Num 80), label = Some ''person'',
        confidence = Num (3 / 4), color = Some ''#000000'' \<rparr>,
      \<lparr> box = (Num 0, Num 0, Num 160, Num 160), label = Some ''person'',
        confidence = Num (7 / 8), color = Some ''#000000'' \<rparr>]"
  using nonMaxSuppression_sorts_in_place[of "[\<lparr> box = (Num 0, Num 0, Num 160, Num 80), label = Some ''person'',
        confidence = Num (3 / 4), color = Some ''#000000'' \<rparr>,
      \<lparr> box = (Num 0, Num 0, Num 160, Num 160), label = Some ''person'',
        confidence = Num (7 / 8), color = Some ''#000000'' \<rparr>]" "Num (45 / 100)"]
  by simp

section \<open>Suppression within one label\<close>

lemma strict_sorted_upt:
  assumes "sorted_wrt (<) ks" "set ks = {..<n}"
  shows "ks = [0 ..< n]"
proof -
  have "sorted ks" "distinct ks" using assms(1) by (simp_all add: strict_sorted_iff)
  moreover have "sorted [0 ..< n]" "distinct [0 ..< n]" by simp_all
  moreover have "set [0 ..< n] = {..<n}" by (simp add: atLeast0LessThan)
  then have "set ks = set [0 ..< n]" by (simp only: assms(2))
  ultimately show ?thesis
    by (rule sorted_distinct_set_unique)
qed

text \<open>
  C6: the selected boxes are the candidates at increasing positions \<open>ks\<close> of the array
  sorted by confidence, which holds the candidates that were passed in; every candidate
  that is not selected has an earlier selected candidate with the same label whose IoU
  with it is above the threshold; and when the labels of the candidates are pairwise
  distinct, every candidate is selected.
\<close>

theorem nonMaxSuppression_class_aware:
  "\<exists>ks. fst (nonMaxSuppression boxes thr) = map ((!) (array_sort boxes)) ks \<and>
         sorted_wrt (<) ks \<and> set ks \<subseteq> {..<length boxes} \<and>
         mset (array_sort boxes) = mset boxes \<and>
         (\<forall>j<length boxes. j \<notin> set ks \<longrightarrow>
            (\<exists>i\<in>set ks. i < j \<and>
               label (array_sort boxes ! i) = label (array_sort boxes ! j) \<and>
               js_gt (calculateIoU (box (array_sort boxes ! i)) (box (array_sort boxes ! j)))
                     thr)) \<and>
         (distinct (map label boxes) \<longrightarrow>
            fst (nonMaxSuppression boxes thr) = array_sort boxes)"
proof -
  define bs where "bs = array_sort boxes"
  have len: "length bs = length boxes" by (simp add: bs_def length_array_sort)
  from nms_loop[of boxes thr] obtain ks where
    out: "fst (nonMaxSuppression boxes thr) = map ((!) bs) ks"
    and srt: "sorted_wrt (<) ks"
    and sub: "set ks \<subseteq> {..<length bs}"
    and chr: "\<forall>j<length bs. (j \<notin> set ks) = (\<exists>i\<in>set ks. i < j \<and> discards bs thr i j)"
    unfolding bs_def by blast
  have all: "distinct (map label boxes) \<longrightarrow> fst (nonMaxSuppression boxes thr) = bs"
  proof
    assume d: "distinct (map label boxes)"
    have "mset (map label bs) = mset (map label boxes)"
      by (simp add: bs_def mset_array_sort)
    from mset_eq_imp_distinct_iff[OF this] d have dl: "distinct (map label bs)" by simp
    have nd: "\<not> discards bs thr i j" if "i < j" "j < length bs" for i j
    proof -
      from that have "i < length bs" "j < length bs" "i \<noteq> j" by simp_all
      with dl have "label (bs ! i) \<noteq> label (bs ! j)"
        by (auto simp: distinct_conv_nth)
      then show ?thesis by (simp add: discards_def)
    qed
    have "j \<in> set ks" if j: "j < length bs" for j
    proof (rule ccontr)
      assume "j \<notin> set ks"
      with chr j obtain i where "i < j" "discards bs thr i j" by blast
      with nd[OF this(1) j] show False by simp
    qed
    then have "{..<length bs} \<subseteq> set ks" by (intro subsetI) simp
    with sub have "set ks = {..<length bs}" by (rule subset_antisym)
    with srt have "ks = [0 ..< length bs]" by (rule strict_sorted_upt)
    then show "fst (nonMaxSuppression boxes thr) = bs" by (simp add: out map_nth)
  qed
  have dis: "\<forall>j<length boxes. j \<notin> set ks \<longrightarrow>
            (\<exists>i\<in>set ks. i < j \<and> label (bs ! i) = label (bs ! j) \<and>
               js_gt (calculateIoU (box (bs ! i)) (box (bs ! j))) thr)"
    using chr unfolding discards_def len by simp
  have sub': "set ks \<subseteq> {..<length boxes}" using sub len by simp
  have ms: "mset bs = mset boxes" by (simp add: bs_def mset_array_sort)
  have "fst (nonMaxSuppression boxes thr) = map ((!) bs) ks \<and>
         sorted_wrt (<) ks \<and> set ks \<subseteq> {..<length boxes} \<and>
         mset bs = mset boxes \<and>
         (\<forall>j<length boxes. j \<notin> set ks \<longrightarrow>
            (\<exists>i\<in>set ks. i < j \<and> label (bs ! i) = label (bs ! j) \<and>
               js_gt (calculateIoU (box (bs ! i)) (box (bs ! j))) thr)) \<and>
         (distinct (map label boxes) \<longrightarrow> fst (nonMaxSuppression boxes thr) = bs)"
    using out srt sub' ms dis all by (intro conjI)
  then show ?thesis unfolding bs_def by (rule exI)
qed

theorem nonMaxSuppression_class_aware_witness:
  "calculateIoU (Num 0, Num 0, Num 160, Num 160) (Num 0, Num 0, Num 160, Num 160) = Num 1 \<and>
   fst (nonMaxSuppression [\<lparr> box = (Num 0, Num 0, Num 160, Num 160), label = Some ''person'',
        confidence = Num (7 / 8), color = Some ''#000000'' \<rparr>,
      \<lparr> box = (Num 0, Num 0, Num 160, Num 160), label = Some ''chair'',
        confidence = Num (3 / 4), color = Some ''#000000'' \<rparr>] (Num (45 / 100))) =
   [\<lparr> box = (Num 0, Num 0, Num 160, Num 160), label = Some ''person'',
        confidence = Num (7 / 8), color = Some ''#000000'' \<rparr>,
      \<lparr> box = (Num 0, Num 0, Num 160, Num 160), label = Some ''chair'',
        confidence = Num (3 / 4), color = Some ''#000000'' \<rparr>]"
proof -
  from nonMaxSuppression_class_aware[of "[\<lparr> box = (Num 0, Num 0, Num 160, Num 160), label = Some ''person'',
        confidence = Num (7 / 8), color = Some ''#000000'' \<rparr>,
      \<lparr> box = (Num 0, Num 0, Num 160, Num 160), label = Some ''chair'',
        confidence = Num (3 / 4), color = Some ''#000000'' \<rparr>]" "Num (45 / 100)"]
  have "distinct (map label [\<lparr> box = (Num 0, Num 0, Num 160, Num 160), label = Some ''person'',
        confidence = Num (7 / 8), color = Some ''#000000'' \<rparr>,
      \<lparr> box = (Num 0, Num 0, Num 160, Num 160), label = Some ''chair'',
        confidence = Num (3 / 4), color = Some ''#000000'' \<rparr>]) \<longrightarrow>
    fst (nonMaxSuppression [\<lparr> box = (Num 0, Num 0, Num 160, Num 160), label = Some ''person'',
        confidence = Num (7 / 8), color = Some ''#000000'' \<rparr>,
      \<lparr> box = (Num 0, Num 0, Num 160, Num 160), label = Some ''chair'',
        confidence = Num (3 / 4), color = Some ''#000000'' \<rparr>] (Num (45 / 100))) =
    array_sort [\<lparr> box = (Num 0, Num 0, Num 160, Num 160), label = Some ''person'',
        confidence = Num (7 / 8), color = Some ''#000000'' \<rparr>,
      \<lparr> box = (Num 0, Num 0, Num 160, Num 160), label = Some ''chair'',
        confidence = Num (3 / 4), color = Some ''#000000'' \<rparr>]"
    by blast
  then show ?thesis
    by (simp add: array_sort_def compareFn_def js_sub_def js_gt_def calculateIoU_Num)
qed

section \<open>What postprocess returns\<close>








section \<open>The IoU threshold of detect\<close>

lemma preprocess_resolves: "\<exists>inputData. preprocess imageData = Inr inputData"
  unfolding preprocess_def Let_def by (rule exI, rule refl)



lemma loadModel_loaded: "modelLoaded this \<Longrightarrow> loadModel engine this = (this, Inr True)"
  by (simp add: loadModel_def)

text \<open>
  \<open>detect\<close> on a service that is loaded, or that the call loads, when the engine
  returns \<open>outp\<close>: the result of \<open>postprocess\<close> on \<open>outp\<close>, the frame dimensions and
  the confidence threshold after the fallback.
\<close>

lemma detect_runs:
  assumes "loadModel engine this = (this', Inr b)" "session this' = Some s"
    and "preprocess imageData = Inr inputData" "run engine s inputData = Some outp"
  shows "detect engine this imageData ct =
           (this', postprocess (colors this') outp
                    (Num (real (image_width imageData))) (Num (real (image_height imageData)))
                    (Some (js_or ct (scoreThreshold modelConfig))))"
proof -
  have l: "(if \<not> modelLoaded this then loadModel engine this else (this, Inr True)) =
             (this', Inr b)"
    using assms(1) by (simp add: loadModel_def split: if_splits)
  show ?thesis
    unfolding detect_def l using assms(2-4) by simp
qed




section \<open>The confidence threshold of detect\<close>

text \<open>
  An output of one row of objectness 0.5 and class score 0.5: the combined confidence
  0.25 passes the threshold 0 and fails the threshold 0.45.
\<close>

lemma results_quarter_row:
  "postprocess_results (replicate 80 ''#000000'')
     \<lparr> tensor_data = [Num (1 / 2), Num (1 / 2), Num (1 / 4), Num (1 / 4), Num (1 / 2), Num (1 / 2)],
       tensor_dims = [1, 1, 6] \<rparr>
     (Num 640) (Num 640) (Num 0) =
   [\<lparr> box = (Num 240, Num 240, Num 160, Num 160), label = Some ''person'',
        confidence = Num (1 / 4), color = Some ''#000000'' \<rparr>]"
  "postprocess_results (replicate 80 ''#000000'')
     \<lparr> tensor_data = [Num (1 / 2), Num (1 / 2), Num (1 / 4), Num (1 / 4), Num (1 / 2), Num (1 / 2)],
       tensor_dims = [1, 1, 6] \<rparr>
     (Num 640) (Num 640) (Num (45 / 100)) = []"
  by (simp_all add: postprocess_results_def js_index_def[of "[_, _, _]"] postprocess_row_eq
        maxClass_def maxClass_step_def typed_at_def classNames_0 js_gt_def js_sub_def
        js_index_def[of "replicate _ _"])

text \<open>
  C9: \<open>detect\<close> called with the confidence threshold 0 does what it does with the
  default 0.45, and with no threshold at all: the fallback \<open>||\<close> takes 0 for an absent
  value. When the service is loaded (or the call loads it) and the engine returns an
  output, \<open>detect\<close> called with 0 resolves with the result of \<open>postprocess\<close> at the
  threshold 0.45, which is not the result at the threshold 0: on the output of one row
  of combined confidence 0.25, \<open>postprocess\<close> returns the Detection at the threshold 0
  and nothing at 0.45.
\<close>

theorem detect_zero_threshold:
  "detect engine this imageData (Some (Num 0)) =
     detect engine this imageData (Some (Num (45 / 100))) \<and>
   detect engine this imageData (Some (Num 0)) = detect engine this imageData None \<and>
   js_or (Some (Num 0)) (scoreThreshold modelConfig) = Num (45 / 100) \<and>
   (loadModel engine this = (this', Inr b) \<and> session this' = Some s \<and>
    preprocess imageData = Inr inputData \<and> run engine s inputData = Some outp \<longrightarrow>
      detect engine this imageData (Some (Num 0)) =
        (this', postprocess (colors this') outp
                  (Num (real (image_width imageData))) (Num (real (image_height imageData)))
                  (Some (Num (45 / 100))))) \<and>
   postprocess (replicate 80 ''#000000'')
     [\<lparr> tensor_data =
          [Num (1 / 2), Num (1 / 2), Num (1 / 4), Num (1 / 4), Num (1 / 2), Num (1 / 2)],
        tensor_dims = [1, 1, 6] \<rparr>]
     (Num 640) (Num 640) (Some (Num 0)) =
   Inr [\<lparr> box = (Num 240, Num 240, Num 160, Num 160), label = Some ''person'',
          confidence = Num (1 / 4), color = Some ''#000000'' \<rparr>] \<and>
   postprocess (replicate 80 ''#000000'')
     [\<lparr> tensor_data =
          [Num (1 / 2), Num (1 / 2), Num (1 / 4), Num (1 / 4), Num (1 / 2), Num (1 / 2)],
        tensor_dims = [1, 1, 6] \<rparr>]
     (Num 640) (Num 640) (Some (Num (45 / 100))) = Inr []"
proof -
  have a: "js_or (Some (Num 0)) (scoreThreshold modelConfig) = Num (45 / 100)"
    by (simp add: js_or_def modelConfig_def)
  have b: "js_or (Some (Num (45 / 100))) (scoreThreshold modelConfig) = Num (45 / 100)"
    by (simp add: js_or_def modelConfig_def)
  have c: "js_or None (scoreThreshold modelConfig) = Num (45 / 100)"
    by (simp add: js_or_def modelConfig_def)
  have e: "detect engine this imageData (Some (Num 0)) =
             detect engine this imageData (Some (Num (45 / 100)))"
          "detect engine this imageData (Some (Num 0)) = detect engine this imageData None"
    by (simp_all only: detect_def a b c)
  have p: "detect engine this imageData (Some (Num 0)) =
        (this', postprocess (colors this') outp
                  (Num (real (image_width imageData))) (Num (real (image_height imageData)))
                  (Some (Num (45 / 100))))"
    if "loadModel engine this = (this', Inr b)" "session this' = Some s"
       "preprocess imageData = Inr inputData" "run engine s inputData = Some outp"
    using detect_runs[OF that, of "Some (Num 0)"] unfolding a .
  have z: "postprocess (replicate 80 ''#000000'')
     [\<lparr> tensor_data =
          [Num (1 / 2), Num (1 / 2), Num (1 / 4), Num (1 / 4), Num (1 / 2), Num (1 / 2)],
        tensor_dims = [1, 1, 6] \<rparr>]
     (Num 640) (Num 640) (Some (Num 0)) =
   Inr [\<lparr> box = (Num 240, Num 240, Num 160, Num 160), label = Some ''person'',
          confidence = Num (1 / 4), color = Some ''#000000'' \<rparr>]"
    unfolding postprocess_def list.case option.case Let_def results_quarter_row
    by (simp add: nms_single)
  have d: "postprocess (replicate 80 ''#000000'')
     [\<lparr> tensor_data =
          [Num (1 / 2), Num (1 / 2), Num (1 / 4), Num (1 / 4), Num (1 / 2), Num (1 / 2)],
        tensor_dims = [1, 1, 6] \<rparr>]
     (Num 640) (Num 640) (Some (Num (45 / 100))) = Inr []"
    unfolding postprocess_def list.case option.case Let_def results_quarter_row
    by (simp add: nms_nil)
  have pin: "loadModel engine this = (this', Inr b) \<and> session this' = Some s \<and>
    preprocess imageData = Inr inputData \<and> run engine s inputData = Some outp \<longrightarrow>
      detect engine this imageData (Some (Num 0)) =
        (this', postprocess (colors this') outp
                  (Num (real (image_width imageData))) (Num (real (image_height imageData)))
                  (Some (Num (45 / 100))))"
    by (intro impI, elim conjE) (rule p; assumption)
  show ?thesis by (intro conjI) (fact e(1), fact e(2), fact a, fact pin, fact z, fact d)
qed

theorem detect_zero_threshold_witness:
  "detect \<lparr> createSession = Some (), run = (\<lambda>s inputData. Some [\<lparr> tensor_data =
          [Num (1 / 2), Num (1 / 2), Num (1 / 4), Num (1 / 4), Num (1 / 2), Num (1 / 2)],
        tensor_dims = [1, 1, 6] \<rparr>]) \<rparr>
     \<lparr> session = Some (), modelLoading = False, modelLoaded = True,
        colors = replicate 80 ''#000000'' \<rparr>
     \<lparr> image_data = replicate (640 * 640 * 4) 0, image_width = 640, image_height = 640 \<rparr>
     (Some (Num 0)) =
   (\<lparr> session = Some (), modelLoading = False, modelLoaded = True,
        colors = replicate 80 ''#000000'' \<rparr>, Inr []) \<and>
   postprocess (replicate 80 ''#000000'')
     [\<lparr> tensor_data =
          [Num (1 / 2), Num (1 / 2), Num (1 / 4), Num (1 / 4), Num (1 / 2), Num (1 / 2)],
        tensor_dims = [1, 1, 6] \<rparr>]
     (Num 640) (Num 640) (Some (Num 0)) =
   Inr [\<lparr> box = (Num 240, Num 240, Num 160, Num 160), label = Some ''person'',
          confidence = Num (1 / 4), color = Some ''#000000'' \<rparr>]"
proof -
  define E :: "unit Engine" where "E = \<lparr> createSession = Some (),
     run = (\<lambda>s inputData. Some [\<lparr> tensor_data =
          [Num (1 / 2), Num (1 / 2), Num (1 / 4), Num (1 / 4), Num (1 / 2), Num (1 / 2)],
        tensor_dims = [1, 1, 6] \<rparr>]) \<rparr>"
  define S :: "unit YOLOv5Service" where "S = \<lparr> session = Some (), modelLoading = False,
     modelLoaded = True, colors = replicate 80 ''#000000'' \<rparr>"
  define I where "I = \<lparr> image_data = replicate (640 * 640 * 4) (0::nat), image_width = 640,
     image_height = 640 \<rparr>"
  have l: "loadModel E S = (S, Inr True)" by (rule loadModel_loaded) (simp add: S_def)
  have s: "session S = Some ()" by (simp add: S_def)
  from preprocess_resolves[of I] obtain inputData where pre: "preprocess I = Inr inputData" ..
  have r: "run E () inputData = Some [\<lparr> tensor_data =
          [Num (1 / 2), Num (1 / 2), Num (1 / 4), Num (1 / 4), Num (1 / 2), Num (1 / 2)],
        tensor_dims = [1, 1, 6] \<rparr>]" by (simp add: E_def)
  have c: "colors S = replicate 80 ''#000000''" "Num (real (image_width I)) = Num 640"
    "Num (real (image_height I)) = Num 640" by (simp_all add: S_def I_def)
  note t = detect_zero_threshold[of E S I S True "()" inputData "[\<lparr> tensor_data =
          [Num (1 / 2), Num (1 / 2), Num (1 / 4), Num (1 / 4), Num (1 / 2), Num (1 / 2)],
        tensor_dims = [1, 1, 6] \<rparr>]"]
  note pin = t[THEN conjunct2, THEN conjunct2, THEN conjunct2, THEN conjunct1, rule_format,
               OF conjI[OF l conjI[OF s conjI[OF pre r]]]]
  note zz = t[THEN conjunct2, THEN conjunct2, THEN conjunct2, THEN conjunct2, THEN conjunct1]
  note dd = t[THEN conjunct2, THEN conjunct2, THEN conjunct2, THEN conjunct2, THEN conjunct2]
  have dt: "detect E S I (Some (Num 0)) = (S, Inr [])"
    using pin unfolding c dd .
  from dt zz show ?thesis
    unfolding E_def S_def I_def by (rule conjI)
qed

end
